theory Spec2Isabelle
  imports Main "HOL-Library.AList" "HOL-Library.Sublist"
begin

section \<open>Python strings\<close>

text \<open>
  A Python \<open>str\<close> is modelled as a \<open>string\<close> holding its UTF-8 bytes. The dot,
  the letters of the extension, the slash and the line feed are ASCII characters, and no
  byte of a multi-byte UTF-8 sequence is an ASCII byte, so the tests on them agree with
  Python's. White space is not ASCII only: it is recognised on the code points of the text.
\<close>

definition lower_char :: "char \<Rightarrow> char" where
  "lower_char c =
     (case map_of (zip ''ABCDEFGHIJKLMNOPQRSTUVWXYZ'' ''abcdefghijklmnopqrstuvwxyz'') c of
        Some d \<Rightarrow> d
      | None \<Rightarrow> c)"

definition lower :: "string \<Rightarrow> string" where
  "lower s = map lower_char s"

definition endswith :: "string \<Rightarrow> string \<Rightarrow> bool" where
  "endswith s suf = (length suf \<le> length s \<and> drop (length s - length suf) s = suf)"

text \<open>The code points of a text, each as its UTF-8 bytes: the first byte of a code point
  tells how many bytes it has.\<close>

definition utf8_width :: "char \<Rightarrow> nat" where
  "utf8_width c =
     (if (of_char c :: nat) < 0xC0 then 1
      else if (of_char c :: nat) < 0xE0 then 2
      else if (of_char c :: nat) < 0xF0 then 3
      else 4)"

fun code_points :: "string \<Rightarrow> string list" where
  "code_points [] = []"
| "code_points (c # cs) =
     (c # take (utf8_width c - 1) cs) # code_points (drop (utf8_width c - 1) cs)"

text \<open>The white space of \<open>str.strip()\<close>: the code points U+0009 to U+000D, U+001C to
  U+0020, U+0085, U+00A0, U+1680, U+2000 to U+200A, U+2028, U+2029, U+202F, U+205F and
  U+3000.\<close>

definition space_codes :: "string list" where
  "space_codes =
     [[CHR 0x09], [CHR 0x0A], [CHR 0x0B], [CHR 0x0C], [CHR 0x0D],
      [CHR 0x1C], [CHR 0x1D], [CHR 0x1E], [CHR 0x1F], [CHR 0x20],
      [CHR 0xC2, CHR 0x85], [CHR 0xC2, CHR 0xA0], [CHR 0xE1, CHR 0x9A, CHR 0x80],
      [CHR 0xE2, CHR 0x80, CHR 0x80], [CHR 0xE2, CHR 0x80, CHR 0x81],
      [CHR 0xE2, CHR 0x80, CHR 0x82], [CHR 0xE2, CHR 0x80, CHR 0x83],
      [CHR 0xE2, CHR 0x80, CHR 0x84], [CHR 0xE2, CHR 0x80, CHR 0x85],
      [CHR 0xE2, CHR 0x80, CHR 0x86], [CHR 0xE2, CHR 0x80, CHR 0x87],
      [CHR 0xE2, CHR 0x80, CHR 0x88], [CHR 0xE2, CHR 0x80, CHR 0x89],
      [CHR 0xE2, CHR 0x80, CHR 0x8A], [CHR 0xE2, CHR 0x80, CHR 0xA8],
      [CHR 0xE2, CHR 0x80, CHR 0xA9], [CHR 0xE2, CHR 0x80, CHR 0xAF],
      [CHR 0xE2, CHR 0x81, CHR 0x9F], [CHR 0xE3, CHR 0x80, CHR 0x80]]"

definition isspace :: "string \<Rightarrow> bool" where
  "isspace cp = (cp \<in> set space_codes)"

text \<open>\<open>s.strip()\<close>: the text without the white space code points at its two ends.\<close>

definition strip :: "string \<Rightarrow> string" where
  "strip s = concat (dropWhile isspace (rev (dropWhile isspace (rev (code_points s)))))"

text \<open>\<open>s.split(sep)\<close> for a one-character separator: never an empty list, and
  \<open>''''.split(sep) = ['''']\<close>.\<close>

fun split :: "string \<Rightarrow> char \<Rightarrow> string list" where
  "split [] sep = [[]]"
| "split (c # cs) sep =
     (if c = sep then [] # split cs sep
      else (case split cs sep of
              [] \<Rightarrow> [[c]]
            | l # ls \<Rightarrow> (c # l) # ls))"

text \<open>The exceptions of the program, each with its message: the two that
  \<open>check_ffmpeg\<close> names, the IndexError of \<open>xs[-1]\<close> on the empty list, and
  \<open>OtherException\<close> for every other subclass of \<open>Exception\<close> (a permission error,
  say).\<close>

datatype py_exception =
    FileNotFoundError string
  | TimeoutExpired string
  | IndexError string
  | OtherException string

fun str_exc :: "py_exception \<Rightarrow> string" where
  "str_exc (FileNotFoundError m) = m"
| "str_exc (TimeoutExpired m) = m"
| "str_exc (IndexError m) = m"
| "str_exc (OtherException m) = m"

definition item_last :: "'a list \<Rightarrow> py_exception + 'a" where
  "item_last xs = (case xs of [] \<Rightarrow> Inl (IndexError ''list index out of range'')
                   | _ \<Rightarrow> Inr (last xs))"

section \<open>Paths\<close>

text \<open>
  \<open>Path(s).name\<close>: the last component of \<open>s\<close>, once empty components and \<open>.\<close>
  components are dropped. \<open>Path(s).stem\<close>: the name without its last suffix; a dot in
  first or in last position starts no suffix (pathlib up to Python 3.13).
\<close>

definition path_name :: "string \<Rightarrow> string" where
  "path_name s =
     (case filter (\<lambda>p. p \<noteq> [] \<and> p \<noteq> ''.'') (split s CHR ''/'') of
        [] \<Rightarrow> []
      | ps \<Rightarrow> last ps)"

definition rfind_dot :: "string \<Rightarrow> nat option" where
  "rfind_dot s =
     (case dropWhile (\<lambda>c. c \<noteq> CHR ''.'') (rev s) of
        [] \<Rightarrow> None
      | _ # r \<Rightarrow> Some (length r))"

definition path_stem :: "string \<Rightarrow> string" where
  "path_stem s =
     (let nm = path_name s in
      case rfind_dot nm of
        None \<Rightarrow> nm
      | Some i \<Rightarrow> (if 0 < i \<and> i < length nm - 1 then take i nm else nm))"

text \<open>The two directories the program touches: \<open>OUTPUT_DIR\<close> and the directory of
  temporary files. A path is a file name inside one of them.\<close>

datatype path = OutputPath string | TmpPath string

fun path_str :: "path \<Rightarrow> string" where
  "path_str (OutputPath n) = ''output/'' @ n"
| "path_str (TmpPath n) = n"

fun name_of :: "path \<Rightarrow> string" where
  "name_of (OutputPath n) = n"
| "name_of (TmpPath n) = path_name n"

section \<open>Input validation\<close>

record uploaded_file =
  name :: string
  fsize :: int
  getbuffer :: string

definition msg_not_mp4 :: string where
  "msg_not_mp4 = '' n'' @ [CHR 0xC3, CHR 0xA3] @ ''o '' @ [CHR 0xC3, CHR 0xA9] @ '' um arquivo .mp4''"

definition msg_empty :: string where
  "msg_empty = '' est'' @ [CHR 0xC3, CHR 0xA1] @ '' vazio''"

definition msg_too_big :: string where
  "msg_too_big = '' excede 500 MB''"

definition quoted :: "string \<Rightarrow> string" where
  "quoted s = [CHR 0x27] @ s @ [CHR 0x27]"

definition validate_file :: "uploaded_file \<Rightarrow> bool \<times> string" where
  "validate_file uploaded =
     (if \<not> endswith (lower (name uploaded)) ''.mp4'' then
        (False, quoted (name uploaded) @ msg_not_mp4)
      else if fsize uploaded = 0 then
        (False, quoted (name uploaded) @ msg_empty)
      else if fsize uploaded > 500 * 1024 * 1024 then
        (False, quoted (name uploaded) @ msg_too_big)
      else (True, []))"

section \<open>The file system\<close>

text \<open>
  A file holds raw bytes or is a zip archive, kept as the list of its entries (entry name
  and entry data, in the order they were written). A directory lists its files by name; the
  first entry of a name is the file, and \<open>listdir\<close> names each file once. The two
  directories hold files only, names are compared exactly (a case-sensitive file system),
  and writing a file or unlinking an existing one succeeds: the failures modelled are those
  of a missing file.
\<close>

datatype content = Data string | ZipArchive "(string \<times> content) list"

type_synonym dir = "(string \<times> content) list"

record filesystem =
  output_dir :: dir
  tmp_dir :: dir

definition listdir :: "dir \<Rightarrow> string list" where
  "listdir d = remdups (map fst d)"

fun dir_of :: "path \<Rightarrow> filesystem \<Rightarrow> dir" where
  "dir_of (OutputPath n) fs = output_dir fs"
| "dir_of (TmpPath n) fs = tmp_dir fs"

fun key_of :: "path \<Rightarrow> string" where
  "key_of (OutputPath n) = n"
| "key_of (TmpPath n) = n"

definition lookup :: "path \<Rightarrow> filesystem \<Rightarrow> content option" where
  "lookup p fs = map_of (dir_of p fs) (key_of p)"

definition path_exists :: "path \<Rightarrow> filesystem \<Rightarrow> bool" where
  "path_exists p fs = (lookup p fs \<noteq> None)"

text \<open>\<open>stat().st_size == 0\<close>. A zip archive is never zero bytes long: it ends with its
  end-of-central-directory record.\<close>

fun st_size_is_0 :: "content \<Rightarrow> bool" where
  "st_size_is_0 (Data b) = (b = [])"
| "st_size_is_0 (ZipArchive es) = False"

fun write_file :: "path \<Rightarrow> content \<Rightarrow> filesystem \<Rightarrow> filesystem" where
  "write_file (OutputPath n) f fs = fs\<lparr>output_dir := AList.update n f (output_dir fs)\<rparr>"
| "write_file (TmpPath n) f fs = fs\<lparr>tmp_dir := AList.update n f (tmp_dir fs)\<rparr>"

fun remove_file :: "path \<Rightarrow> filesystem \<Rightarrow> filesystem" where
  "remove_file (OutputPath n) fs = fs\<lparr>output_dir := AList.delete n (output_dir fs)\<rparr>"
| "remove_file (TmpPath n) fs = fs\<lparr>tmp_dir := AList.delete n (tmp_dir fs)\<rparr>"

text \<open>\<open>p.unlink(missing_ok)\<close>: FileNotFoundError on a missing file unless
  \<open>missing_ok\<close>.\<close>

definition unlink :: "path \<Rightarrow> bool \<Rightarrow> filesystem \<Rightarrow> py_exception + filesystem" where
  "unlink p missing_ok fs =
     (if path_exists p fs then Inr (remove_file p fs)
      else if missing_ok then Inr fs
      else Inl (FileNotFoundError (path_str p)))"

definition read_bytes :: "path \<Rightarrow> filesystem \<Rightarrow> py_exception + content" where
  "read_bytes p fs =
     (case lookup p fs of
        None \<Rightarrow> Inl (FileNotFoundError (path_str p))
      | Some f \<Rightarrow> Inr f)"

text \<open>\<open>OUTPUT_DIR.glob("*.mp3")\<close>: the names of the output directory that end in
  \<open>.mp3\<close> (the star of pathlib matches any characters, the empty text and a leading dot
  included).\<close>

definition glob_mp3 :: "filesystem \<Rightarrow> path list" where
  "glob_mp3 fs = map OutputPath (filter (\<lambda>n. endswith n ''.mp3'') (listdir (output_dir fs)))"

section \<open>The external transcoder\<close>

text \<open>
  \<open>subprocess.run\<close> returns a completed process or raises. The environment of a run
  gives the outcome of the version query (which writes no file), and for the \<open>i\<close>-th
  conversion started, from its argument vector and the file system it finds, the outcome
  and the file system it leaves; it also gives the name of the \<open>i\<close>-th temporary file.
  Nothing is assumed about any of them.
\<close>

record completed_process =
  returncode :: int
  stdout :: string
  stderr :: string

type_synonym run_result = "py_exception + completed_process"

record env =
  ffmpeg_version :: run_result
  ffmpeg :: "nat \<Rightarrow> string list \<Rightarrow> filesystem \<Rightarrow> run_result \<times> filesystem"
  mkstemp :: "nat \<Rightarrow> string"

text \<open>The state of a run: the file system and the argument vectors of the conversions
  started so far, oldest first.\<close>

record world =
  files :: filesystem
  calls :: "string list list"

definition subprocess_run :: "env \<Rightarrow> string list \<Rightarrow> world \<Rightarrow> run_result \<times> world" where
  "subprocess_run e argv w =
     (case ffmpeg e (length (calls w)) argv (files w) of
        (r, fs') \<Rightarrow> (r, w\<lparr>files := fs', calls := calls w @ [argv]\<rparr>))"

definition check_ffmpeg :: "env \<Rightarrow> py_exception + bool" where
  "check_ffmpeg e =
     (case ffmpeg_version e of
        Inr result \<Rightarrow> Inr (returncode result = 0)
      | Inl (FileNotFoundError m) \<Rightarrow> Inr False
      | Inl (TimeoutExpired m) \<Rightarrow> Inr False
      | Inl ex \<Rightarrow> Inl ex)"

section \<open>The conversion worker\<close>

text \<open>The dictionary a conversion returns: \<open>{"success": True}\<close> or
  \<open>{"success": False, "error": message}\<close>.\<close>

datatype conversion = Succeeded | Failed string

fun success :: "conversion \<Rightarrow> bool" where
  "success Succeeded = True"
| "success (Failed m) = False"

fun error :: "conversion \<Rightarrow> string" where
  "error Succeeded = []"
| "error (Failed m) = m"

definition msg_no_output :: string where
  "msg_no_output = ''Arquivo de sa'' @ [CHR 0xC3, CHR 0xAD] @ ''da vazio ou n''
                   @ [CHR 0xC3, CHR 0xA3] @ ''o criado.''"

definition msg_timeout :: string where
  "msg_timeout = ''Timeout: convers'' @ [CHR 0xC3, CHR 0xA3] @ ''o demorou mais de 5 minutos.''"

definition ffmpeg_args :: "path \<Rightarrow> path \<Rightarrow> string list" where
  "ffmpeg_args input_path output_path =
     [''ffmpeg'', ''-y'', ''-i'', path_str input_path, ''-vn'', ''-acodec'', ''libmp3lame'',
      ''-ab'', ''192k'', ''-ar'', ''44100'', path_str output_path]"

definition output_missing_or_empty :: "path \<Rightarrow> filesystem \<Rightarrow> bool" where
  "output_missing_or_empty output_path fs =
     (case lookup output_path fs of None \<Rightarrow> True | Some f \<Rightarrow> st_size_is_0 f)"

definition convert_mp4_to_mp3 :: "env \<Rightarrow> path \<Rightarrow> path \<Rightarrow> world \<Rightarrow> conversion \<times> world" where
  "convert_mp4_to_mp3 e input_path output_path w =
     (case subprocess_run e (ffmpeg_args input_path output_path) w of
        (Inr result, w') \<Rightarrow>
          if returncode result \<noteq> 0 then
            (case item_last (split (strip (stderr result)) CHR 0x0A) of
               Inr line \<Rightarrow> (Failed line, w')
             | Inl ex \<Rightarrow> (Failed (str_exc ex), w'))
          else if output_missing_or_empty output_path (files w') then
            (Failed msg_no_output, w')
          else (Succeeded, w')
      | (Inl (TimeoutExpired m), w') \<Rightarrow> (Failed msg_timeout, w')
      | (Inl ex, w') \<Rightarrow> (Failed (str_exc ex), w'))"

section \<open>The batch\<close>

text \<open>The validation loop over the uploads: the accepted files and the reasons of the
  rejected ones, each in upload order.\<close>

fun validate_all ::
  "uploaded_file list \<Rightarrow> uploaded_file list \<Rightarrow> string list \<Rightarrow> uploaded_file list \<times> string list"
where
  "validate_all [] valid_files invalid_files = (valid_files, invalid_files)"
| "validate_all (f # rest) valid_files invalid_files =
     (case validate_file f of
        (is_valid, reason) \<Rightarrow>
          if is_valid then validate_all rest (valid_files @ [f]) invalid_files
          else validate_all rest valid_files (invalid_files @ [reason]))"

text \<open>The clearing step: every \<open>*.mp3\<close> of the output directory is unlinked, then the
  bundle if it exists.\<close>

fun unlink_each :: "path list \<Rightarrow> filesystem \<Rightarrow> py_exception + filesystem" where
  "unlink_each [] fs = Inr fs"
| "unlink_each (old # rest) fs =
     (case unlink old False fs of
        Inl ex \<Rightarrow> Inl ex
      | Inr fs' \<Rightarrow> unlink_each rest fs')"

definition zip_name :: string where
  "zip_name = ''todos_mp3.zip''"

definition clear_outputs :: "filesystem \<Rightarrow> py_exception + filesystem" where
  "clear_outputs fs =
     (case unlink_each (glob_mp3 fs) fs of
        Inl ex \<Rightarrow> Inl ex
      | Inr fs' \<Rightarrow>
          (let zip_old = OutputPath zip_name in
           if path_exists zip_old fs' then unlink zip_old False fs' else Inr fs'))"

text \<open>One turn of the conversion loop: the upload is copied to a temporary file, converted,
  the temporary file is unlinked, and the outcome is appended to one of the two lists.\<close>

definition output_path_of :: "uploaded_file \<Rightarrow> path" where
  "output_path_of uploaded = OutputPath (path_stem (name uploaded) @ ''.mp3'')"

type_synonym loop_state = "world \<times> path list \<times> string list"

definition convert_item :: "env \<Rightarrow> uploaded_file \<Rightarrow> loop_state \<Rightarrow> py_exception + loop_state" where
  "convert_item e uploaded st =
     (case st of
        (w, converted_files, errors) \<Rightarrow>
          (let tmp_path = TmpPath (mkstemp e (length (calls w)));
               w1 = w\<lparr>files := write_file tmp_path (Data (getbuffer uploaded)) (files w)\<rparr>;
               output_path = output_path_of uploaded
           in case convert_mp4_to_mp3 e tmp_path output_path w1 of
                (result, w2) \<Rightarrow>
                  (case unlink tmp_path True (files w2) of
                     Inl ex \<Rightarrow> Inl ex
                   | Inr fs3 \<Rightarrow>
                       if success result then
                         Inr (w2\<lparr>files := fs3\<rparr>, converted_files @ [output_path], errors)
                       else
                         Inr (w2\<lparr>files := fs3\<rparr>, converted_files,
                              errors @ [name uploaded @ '': '' @ error result]))))"

fun conversion_loop :: "env \<Rightarrow> uploaded_file list \<Rightarrow> loop_state \<Rightarrow> py_exception + loop_state" where
  "conversion_loop e [] st = Inr st"
| "conversion_loop e (uploaded # rest) st =
     (case convert_item e uploaded st of
        Inl ex \<Rightarrow> Inl ex
      | Inr st' \<Rightarrow> conversion_loop e rest st')"

text \<open>The bundler: the archive is opened for writing (which truncates it), each file is
  added under its base name, a missing file raises.\<close>

fun zip_write_each ::
  "path list \<Rightarrow> filesystem \<Rightarrow> (string \<times> content) list \<Rightarrow> py_exception + (string \<times> content) list"
where
  "zip_write_each [] fs entries = Inr entries"
| "zip_write_each (f # rest) fs entries =
     (case read_bytes f fs of
        Inl ex \<Rightarrow> Inl ex
      | Inr data \<Rightarrow> zip_write_each rest fs (entries @ [(name_of f, data)]))"

definition create_zip :: "path list \<Rightarrow> filesystem \<Rightarrow> py_exception + (path \<times> filesystem)" where
  "create_zip mp3_files fs =
     (let zip_path = OutputPath zip_name;
          fs0 = write_file zip_path (ZipArchive []) fs
      in case zip_write_each mp3_files fs0 [] of
           Inl ex \<Rightarrow> Inl ex
         | Inr entries \<Rightarrow> Inr (zip_path, write_file zip_path (ZipArchive entries) fs0))"

text \<open>What a finished batch shows: one download per converted file, the bundle when there
  is more than one, and the error lines.

  \<open>st.download_button\<close> is called without a key, so the identity of a button is made
  from its arguments: the label (the file name and the size of the data), the data and the
  file name. A button whose file name and data are those of a button already shown raises
  StreamlitDuplicateElementId, an exception that nothing catches. The button of the bundle
  differs from the others in its file name.\<close>

record batch_result =
  converted_files :: "path list"
  errors :: "string list"
  downloads :: "(string \<times> content) list"
  zip_download :: "(string \<times> content) option"

definition msg_duplicate_id :: string where
  "msg_duplicate_id = ''StreamlitDuplicateElementId: multiple download_button elements with the same auto-generated ID''"

fun download_each ::
  "path list \<Rightarrow> filesystem \<Rightarrow> (string \<times> content) list \<Rightarrow> py_exception + (string \<times> content) list"
where
  "download_each [] fs buttons = Inr buttons"
| "download_each (mp3_path # rest) fs buttons =
     (case read_bytes mp3_path fs of
        Inl ex \<Rightarrow> Inl ex
      | Inr file_bytes \<Rightarrow>
          if (name_of mp3_path, file_bytes) \<in> set buttons then
            Inl (OtherException msg_duplicate_id)
          else download_each rest fs (buttons @ [(name_of mp3_path, file_bytes)]))"

definition deliver ::
  "path list \<Rightarrow> string list \<Rightarrow> filesystem \<Rightarrow> py_exception + (batch_result \<times> filesystem)"
where
  "deliver converted errs fs =
     (if converted \<noteq> [] then
        (case download_each converted fs [] of
           Inl ex \<Rightarrow> Inl ex
         | Inr buttons \<Rightarrow>
             if length converted > 1 then
               (case create_zip converted fs of
                  Inl ex \<Rightarrow> Inl ex
                | Inr (zip_path, fs') \<Rightarrow>
                    (case read_bytes zip_path fs' of
                       Inl ex \<Rightarrow> Inl ex
                     | Inr zip_bytes \<Rightarrow>
                         Inr (\<lparr>converted_files = converted, errors = errs,
                               downloads = buttons,
                               zip_download = Some (zip_name, zip_bytes)\<rparr>, fs')))
             else
               Inr (\<lparr>converted_files = converted, errors = errs,
                     downloads = buttons, zip_download = None\<rparr>, fs))
      else
        Inr (\<lparr>converted_files = converted, errors = errs,
              downloads = [], zip_download = None\<rparr>, fs))"

text \<open>The handler of the button: clearing, the conversion loop, the delivery.\<close>

definition run_batch ::
  "env \<Rightarrow> uploaded_file list \<Rightarrow> world \<Rightarrow> py_exception + (batch_result \<times> world)"
where
  "run_batch e valid_files w =
     (case clear_outputs (files w) of
        Inl ex \<Rightarrow> Inl ex
      | Inr fs0 \<Rightarrow>
          (case conversion_loop e valid_files (w\<lparr>files := fs0\<rparr>, [], []) of
             Inl ex \<Rightarrow> Inl ex
           | Inr (w1, converted, errs) \<Rightarrow>
               (case deliver converted errs (files w1) of
                  Inl ex \<Rightarrow> Inl ex
                | Inr (res, fs2) \<Rightarrow> Inr (res, w1\<lparr>files := fs2\<rparr>))))"

text \<open>One run of the script, from the uploads and whether the button is pressed. The
  button exists only when some upload is valid.\<close>

datatype screen =
    FfmpegMissing
  | UploadPrompt
  | Queue "string list" "string list"
  | Results "string list" "string list" batch_result

definition script ::
  "env \<Rightarrow> uploaded_file list \<Rightarrow> bool \<Rightarrow> world \<Rightarrow> py_exception + (screen \<times> world)"
where
  "script e uploaded_files button w =
     (case check_ffmpeg e of
        Inl ex \<Rightarrow> Inl ex
      | Inr found \<Rightarrow>
          if \<not> found then Inr (FfmpegMissing, w)
          else if uploaded_files \<noteq> [] then
            (case validate_all uploaded_files [] [] of
               (valid_files, invalid_files) \<Rightarrow>
                 if valid_files \<noteq> [] then
                   (if button then
                      (case run_batch e valid_files w of
                         Inl ex \<Rightarrow> Inl ex
                       | Inr (res, w') \<Rightarrow>
                           Inr (Results invalid_files (map name valid_files) res, w'))
                    else Inr (Queue invalid_files (map name valid_files), w))
                 else Inr (Queue invalid_files [], w))
          else Inr (UploadPrompt, w))"

section \<open>Notions of the specification and sample inputs\<close>

text \<open>The spellings of the required extension that differ only in case.\<close>

definition mp4_extensions :: "string set" where
  "mp4_extensions = {''.mp4'', ''.mP4'', ''.Mp4'', ''.MP4''}"

definition upload :: "string \<Rightarrow> int \<Rightarrow> uploaded_file" where
  "upload n k = \<lparr>name = n, fsize = k, getbuffer = replicate (nat k) CHR ''v''\<rparr>"

definition exit_with :: "int \<Rightarrow> string \<Rightarrow> run_result" where
  "exit_with rc diag = Inr \<lparr>returncode = rc, stdout = [], stderr = diag\<rparr>"

text \<open>An environment where the tool is found but may not be executed.\<close>

definition env_no_permission :: env where
  "env_no_permission =
     \<lparr>ffmpeg_version = Inl (OtherException ''[Errno 13] Permission denied''),
      ffmpeg = (\<lambda>i argv fs. (Inl (OtherException ''[Errno 13] Permission denied''), fs)),
      mkstemp = (\<lambda>i. ''/tmp/tmp'' @ replicate i CHR ''a'' @ ''.mp4'')\<rparr>"

text \<open>The names the clearing step leaves alone.\<close>

definition kept :: "string \<Rightarrow> bool" where
  "kept n = (\<not> endswith n ''.mp3'' \<and> n \<noteq> zip_name)"

text \<open>The temporary file of the next conversion, and the state in which the transcoder is
  started on an upload.\<close>

definition tmp_path_of :: "env \<Rightarrow> world \<Rightarrow> path" where
  "tmp_path_of e w = TmpPath (mkstemp e (length (calls w)))"

definition staged :: "env \<Rightarrow> uploaded_file \<Rightarrow> world \<Rightarrow> world" where
  "staged e u w = w\<lparr>files := write_file (tmp_path_of e w) (Data (getbuffer u)) (files w)\<rparr>"

definition launch :: "env \<Rightarrow> uploaded_file \<Rightarrow> world \<Rightarrow> run_result \<times> filesystem" where
  "launch e u w =
     ffmpeg e (length (calls w)) (ffmpeg_args (tmp_path_of e w) (output_path_of u))
       (files (staged e u w))"

text \<open>Sample environments and states. The sample transcoders find the name of the output
  file as the last argument, after the seven characters of \<open>output/\<close>.\<close>

definition sample_tmp :: "nat \<Rightarrow> string" where
  "sample_tmp i = ''/tmp/tmp'' @ replicate i CHR ''a'' @ ''.mp4''"

definition out_name :: "string list \<Rightarrow> string" where
  "out_name argv = drop 7 (last argv)"

definition env_ok :: env where
  "env_ok =
     \<lparr>ffmpeg_version = exit_with 0 [],
      ffmpeg = (\<lambda>i argv fs. (exit_with 0 [], write_file (OutputPath (out_name argv)) (Data ''ID3'') fs)),
      mkstemp = sample_tmp\<rparr>"

text \<open>A transcoder that has written the start of its output when the timeout strikes.\<close>

definition env_stalls :: env where
  "env_stalls =
     \<lparr>ffmpeg_version = exit_with 0 [],
      ffmpeg = (\<lambda>i argv fs. (Inl (TimeoutExpired ''timed out after 300 seconds''),
                              write_file (OutputPath (out_name argv)) (Data ''ID3'') fs)),
      mkstemp = sample_tmp\<rparr>"

definition empty_world :: world where
  "empty_world = \<lparr>files = \<lparr>output_dir = [], tmp_dir = []\<rparr>, calls = []\<rparr>"

text \<open>A transcoder that converts its first input and rejects the others, one that reports
  success and writes nothing, and a state that holds outputs of an earlier batch beside a
  file of another kind.\<close>

definition env_mixed :: env where
  "env_mixed =
     \<lparr>ffmpeg_version = exit_with 0 [],
      ffmpeg = (\<lambda>i argv fs.
                  if i = 0 then (exit_with 0 [], write_file (OutputPath (out_name argv)) (Data ''ID3'') fs)
                  else (exit_with 1 ''unsupported codec'', fs)),
      mkstemp = sample_tmp\<rparr>"

definition env_inert :: env where
  "env_inert =
     \<lparr>ffmpeg_version = exit_with 0 [],
      ffmpeg = (\<lambda>i argv fs. (exit_with 0 [], fs)),
      mkstemp = sample_tmp\<rparr>"

definition stale_world :: world where
  "stale_world =
     \<lparr>files = \<lparr>output_dir = [(''old.mp3'', Data ''ID3''), (''notes.txt'', Data ''n''),
                              (''todos_mp3.zip'', ZipArchive [(''old.mp3'', Data ''ID3'')])],
                tmp_dir = []\<rparr>,
      calls = []\<rparr>"

text \<open>The last non-empty line of a text, in the words of the specification.\<close>

definition last_nonempty_line :: "string \<Rightarrow> string" where
  "last_nonempty_line s = last (filter (\<lambda>l. l \<noteq> []) (split s CHR 0x0A))"

text \<open>A text as the list of its code points: each is the UTF-8 bytes of one code
  point.\<close>

definition utf8_char :: "string \<Rightarrow> bool" where
  "utf8_char c = (c \<noteq> [] \<and> length c = utf8_width (hd c))"

definition ascii :: "string \<Rightarrow> string list" where
  "ascii s = map (\<lambda>c. [c]) s"

text \<open>A transcoder that rejects its input; the last line of its diagnostics ends with a
  space. A second one ends that line with a no-break space (U+00A0).\<close>

definition nbsp_diag :: string where
  "nbsp_diag = ''ffmpeg version 6.0'' @ [CHR 0x0A] @ ''unsupported codec''
               @ [CHR 0xC2, CHR 0xA0] @ [CHR 0x0A]"

definition env_rejects_nbsp :: env where
  "env_rejects_nbsp =
     \<lparr>ffmpeg_version = exit_with 0 [],
      ffmpeg = (\<lambda>i argv fs. (exit_with 1 nbsp_diag, fs)),
      mkstemp = sample_tmp\<rparr>"

definition rejects_diag :: string where
  "rejects_diag = ''ffmpeg version 6.0'' @ [CHR 0x0A] @ ''unsupported codec '' @ [CHR 0x0A]"

definition env_rejects :: env where
  "env_rejects =
     \<lparr>ffmpeg_version = exit_with 0 [],
      ffmpeg = (\<lambda>i argv fs. (exit_with 1 rejects_diag, fs)),
      mkstemp = sample_tmp\<rparr>"

section \<open>Facts about the string functions\<close>

lemma lower_char_dot: "lower_char c = CHR ''.'' \<longleftrightarrow> c = CHR ''.''"
  by (simp add: lower_char_def)

lemma lower_char_4: "lower_char c = CHR ''4'' \<longleftrightarrow> c = CHR ''4''"
  by (simp add: lower_char_def)

lemma lower_char_m: "lower_char c = CHR ''m'' \<longleftrightarrow> c = CHR ''m'' \<or> c = CHR ''M''"
  by (simp add: lower_char_def)

lemma lower_char_p: "lower_char c = CHR ''p'' \<longleftrightarrow> c = CHR ''p'' \<or> c = CHR ''P''"
  by (simp add: lower_char_def)

lemma endswith_iff: "endswith s suf \<longleftrightarrow> (\<exists>stem. s = stem @ suf)"
proof
  assume "endswith s suf"
  then have "drop (length s - length suf) s = suf" by (simp add: endswith_def)
  then have "s = take (length s - length suf) s @ suf"
    using append_take_drop_id [of "length s - length suf" s] by simp
  then show "\<exists>stem. s = stem @ suf" ..
next
  assume "\<exists>stem. s = stem @ suf"
  then show "endswith s suf" by (auto simp: endswith_def)
qed

lemma lower_ext: "lower ext = ''.mp4'' \<longleftrightarrow> ext \<in> mp4_extensions"
proof
  assume h: "lower ext = ''.mp4''"
  then have "length (lower ext) = 4" by simp
  then have "length ext = 4" by (simp add: lower_def)
  then obtain a b c d where e: "ext = [a, b, c, d]"
    by (auto simp: length_Suc_conv numeral_eq_Suc)
  with h show "ext \<in> mp4_extensions"
    by (auto simp: lower_def mp4_extensions_def lower_char_dot lower_char_4 lower_char_m lower_char_p)
next
  assume "ext \<in> mp4_extensions"
  then show "lower ext = ''.mp4''"
    by (auto simp: mp4_extensions_def lower_def lower_char_def)
qed

lemma endswith_lower_mp4:
  "endswith (lower s) ''.mp4'' \<longleftrightarrow> (\<exists>stem ext. s = stem @ ext \<and> ext \<in> mp4_extensions)"
proof
  assume "endswith (lower s) ''.mp4''"
  then obtain t where t: "lower s = t @ ''.mp4''" by (auto simp: endswith_iff)
  let ?k = "length s - 4"
  have "length (lower s) = length t + 4" using t by simp
  then have len: "length s = length t + 4" by (simp add: lower_def)
  have "lower (drop ?k s) = drop ?k (lower s)" by (simp add: lower_def drop_map)
  also have "\<dots> = ''.mp4''" using t len by simp
  finally have "drop ?k s \<in> mp4_extensions" by (simp add: lower_ext)
  moreover have "s = take ?k s @ drop ?k s" by simp
  ultimately show "\<exists>stem ext. s = stem @ ext \<and> ext \<in> mp4_extensions" by blast
next
  assume "\<exists>stem ext. s = stem @ ext \<and> ext \<in> mp4_extensions"
  then obtain stem ext where "s = stem @ ext" "lower ext = ''.mp4''" by (auto simp: lower_ext)
  then have "lower s = lower stem @ ''.mp4''" by (simp add: lower_def)
  then show "endswith (lower s) ''.mp4''" by (auto simp: endswith_iff)
qed

section \<open>Facts about the file system\<close>

lemma lookup_write_file:
  "lookup q (write_file p f fs) = (if q = p then Some f else lookup q fs)"
  by (cases p; cases q) (simp_all add: lookup_def update_conv')

lemma lookup_remove_file:
  "lookup q (remove_file p fs) = (if q = p then None else lookup q fs)"
  by (cases p; cases q) (simp_all add: lookup_def delete_conv')

lemma remove_file_absent: "lookup p fs = None \<Longrightarrow> remove_file p fs = fs"
  by (cases p) (simp_all add: lookup_def map_of_eq_None_iff)

lemma unlink_missing_ok: "unlink p True fs = Inr (remove_file p fs)"
  by (simp add: unlink_def path_exists_def remove_file_absent)

lemma unlink_present: "lookup p fs \<noteq> None \<Longrightarrow> unlink p b fs = Inr (remove_file p fs)"
  by (simp add: unlink_def path_exists_def)

lemma map_of_filter_keys:
  "map_of (filter (\<lambda>(k, v). P k) d) n = (if P n then map_of d n else None)"
  by (induction d) auto

lemma filter_delete_keys:
  "filter (\<lambda>(k, v). k \<notin> set ns) (AList.delete n d) = filter (\<lambda>(k, v). k \<notin> set (n # ns)) d"
  by (induction d) (auto simp: AList.delete_eq)

lemma unlink_each_present:
  "distinct ns \<Longrightarrow> \<forall>n \<in> set ns. map_of (output_dir fs) n \<noteq> None \<Longrightarrow>
   unlink_each (map OutputPath ns) fs
     = Inr (fs\<lparr>output_dir := filter (\<lambda>(k, v). k \<notin> set ns) (output_dir fs)\<rparr>)"
proof (induction ns arbitrary: fs)
  case Nil
  then show ?case by simp
next
  case (Cons n ns)
  let ?fs = "remove_file (OutputPath n) fs"
  have here: "unlink (OutputPath n) False fs = Inr ?fs"
    using Cons.prems by (simp add: unlink_present lookup_def)
  have rest: "\<forall>k \<in> set ns. map_of (output_dir ?fs) k \<noteq> None"
    using Cons.prems by (auto simp: delete_conv')
  have "unlink_each (map OutputPath ns) ?fs
          = Inr (?fs\<lparr>output_dir := filter (\<lambda>(k, v). k \<notin> set ns) (output_dir ?fs)\<rparr>)"
    using Cons.prems rest by (intro Cons.IH) simp_all
  then show ?case
    using here by (simp add: filter_delete_keys)
qed

lemma glob_mp3_names:
  "glob_mp3 fs = map OutputPath (filter (\<lambda>n. endswith n ''.mp3'') (remdups (map fst (output_dir fs))))"
  by (simp add: glob_mp3_def listdir_def)

lemma delete_filter_keys:
  "AList.delete z (filter (\<lambda>(k, v). P k) d) = filter (\<lambda>(k, v). P k \<and> k \<noteq> z) d"
  by (induction d) (auto simp: AList.delete_eq)

lemma filter_keys_cong:
  "(\<And>k. k \<in> fst ` set d \<Longrightarrow> P k = Q k) \<Longrightarrow>
   filter (\<lambda>(k, v). P k) d = filter (\<lambda>(k, v). Q k) d"
  by (induction d) auto

lemma unlink_if_exists:
  "(if path_exists p fs then unlink p False fs else Inr fs) = Inr (remove_file p fs)"
  by (simp add: unlink_def path_exists_def remove_file_absent)

lemma clear_outputs_eq:
  "clear_outputs fs = Inr (fs\<lparr>output_dir := filter (\<lambda>(k, v). kept k) (output_dir fs)\<rparr>)"
proof -
  define ns where "ns = filter (\<lambda>n. endswith n ''.mp3'') (remdups (map fst (output_dir fs)))"
  define fs1 where "fs1 = fs\<lparr>output_dir := filter (\<lambda>(k, v). k \<notin> set ns) (output_dir fs)\<rparr>"
  have "\<forall>n \<in> set ns. map_of (output_dir fs) n \<noteq> None"
    by (auto simp: ns_def map_of_eq_None_iff)
  moreover have "distinct ns"
    by (simp add: ns_def)
  ultimately have "unlink_each (map OutputPath ns) fs = Inr fs1"
    unfolding fs1_def by (rule unlink_each_present [rotated])
  then have loop: "unlink_each (glob_mp3 fs) fs = Inr fs1"
    by (simp add: glob_mp3_names ns_def)
  have "filter (\<lambda>(k, v). k \<notin> set ns) (output_dir fs)
          = filter (\<lambda>(k, v). \<not> endswith k ''.mp3'') (output_dir fs)"
    by (rule filter_keys_cong) (auto simp: ns_def)
  then have "remove_file (OutputPath zip_name) fs1
          = fs\<lparr>output_dir := filter (\<lambda>(k, v). kept k) (output_dir fs)\<rparr>"
    by (simp add: fs1_def kept_def delete_filter_keys)
  then have "(if path_exists (OutputPath zip_name) fs1
              then unlink (OutputPath zip_name) False fs1 else Inr fs1)
             = Inr (fs\<lparr>output_dir := filter (\<lambda>(k, v). kept k) (output_dir fs)\<rparr>)"
    by (simp only: unlink_if_exists)
  then show ?thesis
    unfolding clear_outputs_def Let_def loop by simp
qed

section \<open>Facts about the conversion worker\<close>

lemma split_not_Nil: "split s sep \<noteq> []"
  by (induction s) (auto split: list.splits)

lemma item_last_split: "item_last (split s sep) = Inr (last (split s sep))"
  using split_not_Nil [of s sep] by (simp add: item_last_def split: list.splits)

lemma convert_world:
  "ffmpeg e (length (calls w)) (ffmpeg_args inp outp) (files w) = (r, fs') \<Longrightarrow>
   snd (convert_mp4_to_mp3 e inp outp w)
     = w\<lparr>files := fs', calls := calls w @ [ffmpeg_args inp outp]\<rparr>"
  by (simp add: convert_mp4_to_mp3_def subprocess_run_def item_last_split
      split: sum.splits py_exception.splits)

lemma convert_completed:
  "ffmpeg e (length (calls w)) (ffmpeg_args inp outp) (files w) = (Inr cp, fs') \<Longrightarrow>
   fst (convert_mp4_to_mp3 e inp outp w)
     = (if returncode cp \<noteq> 0 then Failed (last (split (strip (stderr cp)) CHR 0x0A))
        else if output_missing_or_empty outp fs' then Failed msg_no_output
        else Succeeded)"
  by (simp add: convert_mp4_to_mp3_def subprocess_run_def item_last_split)

lemma convert_timeout:
  "ffmpeg e (length (calls w)) (ffmpeg_args inp outp) (files w) = (Inl (TimeoutExpired m), fs') \<Longrightarrow>
   fst (convert_mp4_to_mp3 e inp outp w) = Failed msg_timeout"
  by (simp add: convert_mp4_to_mp3_def subprocess_run_def)

lemma convert_item_eq:
  assumes "launch e u w = (r, fs')"
  shows "\<exists>c. fst (convert_mp4_to_mp3 e (tmp_path_of e w) (output_path_of u) (staged e u w)) = c
     \<and> convert_item e u (w, cs, es)
       = Inr (w\<lparr>files := remove_file (tmp_path_of e w) fs',
                calls := calls w @ [ffmpeg_args (tmp_path_of e w) (output_path_of u)]\<rparr>,
              if success c then cs @ [output_path_of u] else cs,
              if success c then es else es @ [name u @ '': '' @ error c])"
proof -
  let ?st = "staged e u w"
  have l: "ffmpeg e (length (calls ?st)) (ffmpeg_args (tmp_path_of e w) (output_path_of u))
             (files ?st) = (r, fs')"
    using assms by (simp add: launch_def staged_def)
  obtain c w2 where c: "convert_mp4_to_mp3 e (tmp_path_of e w) (output_path_of u) ?st = (c, w2)"
    by (cases "convert_mp4_to_mp3 e (tmp_path_of e w) (output_path_of u) ?st")
  have w2: "w2 = w\<lparr>files := fs',
                    calls := calls w @ [ffmpeg_args (tmp_path_of e w) (output_path_of u)]\<rparr>"
    using convert_world [OF l] c by (simp add: staged_def)
  show ?thesis
    using c w2
    by (simp add: convert_item_def Let_def unlink_missing_ok
        flip: tmp_path_of_def staged_def)
qed

section \<open>Facts about stripping and splitting\<close>

lemma split_append_sep: "split (a @ sep # b) sep = split a sep @ split b sep"
proof (induction a)
  case Nil
  then show ?case by simp
next
  case (Cons c a)
  then show ?case
    using split_not_Nil [of a sep] by (auto split: list.splits)
qed

lemma split_no_sep: "sep \<notin> set a \<Longrightarrow> split a sep = [a]"
  by (induction a) auto

lemma split_newlines: "split (replicate k sep) sep = replicate (Suc k) []"
  by (induction k) auto

lemma dropWhile_head: "xs \<noteq> [] \<Longrightarrow> \<not> P (hd xs) \<Longrightarrow> dropWhile P xs = xs"
  by (cases xs) simp_all

lemma dropWhile_trailing:
  assumes "\<forall>c \<in> set ws. P c" "line \<noteq> []" "\<not> P (last line)"
  shows "rev (dropWhile P (rev (pre @ line @ ws))) = pre @ line"
proof -
  have "dropWhile P (rev ws @ rev line @ rev pre) = dropWhile P (rev line @ rev pre)"
    using assms(1) by (intro dropWhile_append2) simp
  moreover have "dropWhile P (rev line @ rev pre) = rev line @ rev pre"
    using assms(2,3) by (intro dropWhile_head) (simp_all add: hd_rev)
  ultimately have "dropWhile P (rev (pre @ line @ ws)) = rev (pre @ line)"
    by simp
  then show ?thesis
    by (simp only: rev_rev_ident)
qed

lemma last_dropWhile: "dropWhile P xs \<noteq> [] \<Longrightarrow> last (dropWhile P xs) = last xs"
proof -
  assume "dropWhile P xs \<noteq> []"
  then have "last (takeWhile P xs @ dropWhile P xs) = last (dropWhile P xs)"
    by (rule last_appendR)
  then show ?thesis by simp
qed

lemma code_points_char:
  "utf8_char c \<Longrightarrow> code_points (c @ rest) = c # code_points rest"
  by (cases c) (simp_all add: utf8_char_def)

lemma code_points_concat: "\<forall>c \<in> set cs. utf8_char c \<Longrightarrow> code_points (concat cs) = cs"
  by (induction cs) (simp_all add: code_points_char)

lemma space_codes_utf8: "c \<in> set space_codes \<Longrightarrow> utf8_char c"
  by (auto simp: space_codes_def utf8_char_def utf8_width_def)

lemma newline_is_space: "[CHR 0x0A] \<in> set space_codes"
  by (simp add: space_codes_def)

lemma strip_blank:
  assumes "set ws \<subseteq> set space_codes"
  shows "strip (concat ws) = []"
proof -
  have cp: "code_points (concat ws) = ws"
    using assms by (intro code_points_concat) (auto intro: space_codes_utf8)
  have e: "dropWhile isspace (rev ws) = []"
    using assms by (auto simp: isspace_def)
  show ?thesis
    unfolding strip_def cp e by simp
qed

lemma last_line_of_stripped:
  assumes wf: "\<forall>c \<in> set (pre @ line). utf8_char c"
    and ws: "set ws \<subseteq> set space_codes"
    and line: "line \<noteq> []" "CHR 0x0A \<notin> set (concat line)" "last line \<notin> set space_codes"
    and pre: "set pre \<subseteq> set space_codes \<and> hd line \<notin> set space_codes
              \<or> pre \<noteq> [] \<and> last pre = [CHR 0x0A] \<and> \<not> set pre \<subseteq> set space_codes"
  shows "last (split (strip (concat (pre @ line @ ws))) CHR 0x0A) = concat line"
proof -
  have "\<forall>c \<in> set (pre @ line @ ws). utf8_char c"
    using wf ws by (auto intro: space_codes_utf8)
  then have cp: "code_points (concat (pre @ line @ ws)) = pre @ line @ ws"
    by (rule code_points_concat)
  have "rev (dropWhile isspace (rev (pre @ line @ ws))) = pre @ line"
    using ws line(1) line(3) by (intro dropWhile_trailing) (auto simp: isspace_def)
  then have r: "strip (concat (pre @ line @ ws)) = concat (dropWhile isspace (pre @ line))"
    unfolding strip_def cp by (simp only:)
  have sl: "split (concat line) CHR 0x0A = [concat line]"
    using line(2) by (rule split_no_sep)
  from pre show ?thesis
  proof
    assume a: "set pre \<subseteq> set space_codes \<and> hd line \<notin> set space_codes"
    then have "dropWhile isspace (pre @ line) = dropWhile isspace line"
      by (intro dropWhile_append2) (auto simp: isspace_def)
    also have "\<dots> = line"
      using a line(1) by (intro dropWhile_head) (simp_all add: isspace_def)
    finally have e: "dropWhile isspace (pre @ line) = line" .
    show ?thesis
      unfolding r e sl by simp
  next
    assume b: "pre \<noteq> [] \<and> last pre = [CHR 0x0A] \<and> \<not> set pre \<subseteq> set space_codes"
    then obtain c where c: "c \<in> set pre" "\<not> isspace c"
      by (auto simp: isspace_def)
    define p where "p = dropWhile isspace pre"
    have d: "dropWhile isspace (pre @ line) = p @ line"
      unfolding p_def using c by (rule dropWhile_append1)
    have "p \<noteq> []"
      unfolding p_def using c by (auto simp: dropWhile_eq_Nil_conv)
    moreover from this have "last p = [CHR 0x0A]"
      unfolding p_def using b by (simp add: last_dropWhile)
    ultimately have "p = butlast p @ [[CHR 0x0A]]"
      by (metis append_butlast_last_id)
    then have "concat p = concat (butlast p) @ [CHR 0x0A]"
      by (metis concat.simps concat_append append_Nil2)
    then have pl: "concat (p @ line) = concat (butlast p) @ CHR 0x0A # concat line"
      by simp
    have "split (concat (p @ line)) CHR 0x0A
            = split (concat (butlast p) @ CHR 0x0A # concat line) CHR 0x0A"
      by (simp only: pl)
    also have "\<dots> = split (concat (butlast p)) CHR 0x0A @ split (concat line) CHR 0x0A"
      by (rule split_append_sep)
    finally have e: "split (concat (p @ line)) CHR 0x0A
                    = split (concat (butlast p)) CHR 0x0A @ [concat line]"
      by (simp only: sl)
    show ?thesis
      unfolding r d e by simp
  qed
qed

lemma last_nonempty_line_eq:
  assumes "pre = [] \<or> last pre = CHR 0x0A" "line \<noteq> []" "CHR 0x0A \<notin> set line"
  shows "last_nonempty_line (pre @ line @ replicate k CHR 0x0A) = line"
proof -
  have tail: "split (line @ replicate k CHR 0x0A) CHR 0x0A = line # replicate k []"
  proof (cases k)
    case 0
    then show ?thesis using assms(3) by (simp add: split_no_sep)
  next
    case (Suc j)
    then have "line @ replicate k CHR 0x0A = line @ CHR 0x0A # replicate j CHR 0x0A"
      by simp
    moreover have "split (line @ CHR 0x0A # replicate j CHR 0x0A) CHR 0x0A
                     = split line CHR 0x0A @ split (replicate j CHR 0x0A) CHR 0x0A"
      by (rule split_append_sep)
    moreover have "split line CHR 0x0A = [line]"
      using assms(3) by (rule split_no_sep)
    ultimately show ?thesis
      using Suc by (simp add: split_newlines)
  qed
  have f: "filter (\<lambda>l. l \<noteq> []) (line # replicate k []) = [line]"
    using assms(2) by simp
  from assms(1) show ?thesis
  proof
    assume "pre = []"
    then show ?thesis
      using tail f by (simp add: last_nonempty_line_def)
  next
    assume l: "last pre = CHR 0x0A"
    show ?thesis
    proof (cases "pre = []")
      case True
      then show ?thesis
        using tail f by (simp add: last_nonempty_line_def)
    next
      case False
      then have "pre = butlast pre @ [CHR 0x0A]"
        using l by (metis append_butlast_last_id)
      then have pl: "pre @ line @ replicate k CHR 0x0A
                 = butlast pre @ CHR 0x0A # (line @ replicate k CHR 0x0A)"
        by (metis append.assoc append_Cons append_Nil)
      have "split (pre @ line @ replicate k CHR 0x0A) CHR 0x0A
                 = split (butlast pre) CHR 0x0A @ line # replicate k []"
        by (simp only: pl split_append_sep tail)
      then show ?thesis
        using f by (simp add: last_nonempty_line_def)
    qed
  qed
qed

section \<open>Facts about the conversion loop\<close>

lemma last_ffmpeg_args: "last (ffmpeg_args inp outp) = path_str outp"
  by (simp add: ffmpeg_args_def)

lemma conversion_loop_outcomes:
  "\<exists>w' rs. length rs = length items
     \<and> conversion_loop e items (w, cs, es)
       = Inr (w',
              cs @ map (\<lambda>(u, r). output_path_of u) (filter (\<lambda>(u, r). success r) (zip items rs)),
              es @ map (\<lambda>(u, r). name u @ '': '' @ error r)
                     (filter (\<lambda>(u, r). \<not> success r) (zip items rs)))
     \<and> map last (calls w') = map last (calls w) @ map (\<lambda>u. path_str (output_path_of u)) items"
proof (induction items arbitrary: w cs es)
  case Nil
  then show ?case by simp
next
  case (Cons u items)
  obtain r fs' where l: "launch e u w = (r, fs')"
    by (cases "launch e u w")
  define w1 where "w1 = w\<lparr>files := remove_file (tmp_path_of e w) fs',
      calls := calls w @ [ffmpeg_args (tmp_path_of e w) (output_path_of u)]\<rparr>"
  from convert_item_eq [OF l, of cs es] obtain c where
    step: "convert_item e u (w, cs, es)
       = Inr (w1, if success c then cs @ [output_path_of u] else cs,
              if success c then es else es @ [name u @ '': '' @ error c])"
    unfolding w1_def by blast
  define cs1 where "cs1 = (if success c then cs @ [output_path_of u] else cs)"
  define es1 where "es1 = (if success c then es else es @ [name u @ '': '' @ error c])"
  from Cons.IH [of w1 cs1 es1] obtain w' rs where
    len: "length rs = length items" and
    run: "conversion_loop e items (w1, cs1, es1)
       = Inr (w',
              cs1 @ map (\<lambda>(u, r). output_path_of u) (filter (\<lambda>(u, r). success r) (zip items rs)),
              es1 @ map (\<lambda>(u, r). name u @ '': '' @ error r)
                     (filter (\<lambda>(u, r). \<not> success r) (zip items rs)))" and
    log: "map last (calls w') = map last (calls w1) @ map (\<lambda>u. path_str (output_path_of u)) items"
    by blast
  have "length (c # rs) = length (u # items)"
    using len by simp
  moreover have "conversion_loop e (u # items) (w, cs, es)
       = Inr (w',
              cs @ map (\<lambda>(u, r). output_path_of u)
                     (filter (\<lambda>(u, r). success r) (zip (u # items) (c # rs))),
              es @ map (\<lambda>(u, r). name u @ '': '' @ error r)
                     (filter (\<lambda>(u, r). \<not> success r) (zip (u # items) (c # rs))))"
    using step run by (simp add: cs1_def es1_def)
  moreover have "map last (calls w')
       = map last (calls w) @ map (\<lambda>u. path_str (output_path_of u)) (u # items)"
    using log by (simp add: w1_def last_ffmpeg_args)
  ultimately show ?case by blast
qed

section \<open>Facts about the clearing step\<close>

lemma glob_mp3_empty_iff:
  "glob_mp3 fs = [] \<longleftrightarrow> (\<forall>n. endswith n ''.mp3'' \<longrightarrow> lookup (OutputPath n) fs = None)"
  by (auto simp: glob_mp3_names filter_empty_conv lookup_def map_of_eq_None_iff)

lemma lookup_cleared:
  "lookup p (fs\<lparr>output_dir := filter (\<lambda>(k, v). kept k) (output_dir fs)\<rparr>)
     = (case p of OutputPath n \<Rightarrow> if kept n then lookup p fs else None
        | TmpPath n \<Rightarrow> lookup p fs)"
  by (cases p) (simp_all add: lookup_def map_of_filter_keys)

lemma endswith_mp3: "endswith (s @ ''.mp3'') ''.mp3''"
  unfolding endswith_iff by blast

lemma output_path_of_cleared:
  "\<forall>n. endswith n ''.mp3'' \<longrightarrow> lookup (OutputPath n) fs = None \<Longrightarrow>
   lookup (output_path_of u) fs = None"
  by (simp add: output_path_of_def endswith_mp3)

lemma convert_fails_without_output:
  "ffmpeg e (length (calls w)) (ffmpeg_args inp outp) (files w) = (r, fs') \<Longrightarrow>
   lookup outp fs' = None \<Longrightarrow>
   \<not> success (fst (convert_mp4_to_mp3 e inp outp w))"
  by (simp add: convert_mp4_to_mp3_def subprocess_run_def item_last_split
      output_missing_or_empty_def split: sum.splits py_exception.splits)

lemma lookup_output_staged:
  "lookup (OutputPath n) (files (staged e u w)) = lookup (OutputPath n) (files w)"
  by (simp add: staged_def tmp_path_of_def lookup_def)

lemma lookup_output_remove_tmp:
  "lookup (OutputPath n) (remove_file (tmp_path_of e w) fs) = lookup (OutputPath n) fs"
  by (simp add: tmp_path_of_def lookup_def)

lemma inert_loop:
  assumes inert: "\<forall>i argv fs0. snd (ffmpeg e i argv fs0) = fs0"
  shows "\<forall>n. endswith n ''.mp3'' \<longrightarrow> lookup (OutputPath n) (files w) = None \<Longrightarrow>
     \<exists>w' es'. conversion_loop e items (w, cs, es) = Inr (w', cs, es')
        \<and> (\<forall>n. lookup (OutputPath n) (files w') = lookup (OutputPath n) (files w))"
proof (induction items arbitrary: w es)
  case Nil
  then show ?case by simp
next
  case (Cons u items)
  obtain r fs' where l: "launch e u w = (r, fs')"
    by (cases "launch e u w")
  have "snd (launch e u w) = files (staged e u w)"
    unfolding launch_def using inert by blast
  then have fs': "fs' = files (staged e u w)"
    using l by simp
  define w1 where "w1 = w\<lparr>files := remove_file (tmp_path_of e w) fs',
      calls := calls w @ [ffmpeg_args (tmp_path_of e w) (output_path_of u)]\<rparr>"
  have same: "\<And>n. lookup (OutputPath n) (files w1) = lookup (OutputPath n) (files w)"
    by (simp add: w1_def lookup_output_remove_tmp fs' lookup_output_staged)
  have "\<forall>n. endswith n ''.mp3'' \<longrightarrow> lookup (OutputPath n) fs' = None"
    using Cons.prems by (simp add: fs' lookup_output_staged)
  then have none: "lookup (output_path_of u) fs' = None"
    by (rule output_path_of_cleared)
  have "ffmpeg e (length (calls (staged e u w)))
          (ffmpeg_args (tmp_path_of e w) (output_path_of u)) (files (staged e u w)) = (r, fs')"
    using l by (simp add: launch_def staged_def)
  from convert_fails_without_output [OF this none]
  have fail: "\<not> success (fst (convert_mp4_to_mp3 e (tmp_path_of e w) (output_path_of u)
                                 (staged e u w)))" .
  from convert_item_eq [OF l, of cs es] fail obtain es1 where
    step: "convert_item e u (w, cs, es) = Inr (w1, cs, es1)"
    unfolding w1_def by auto
  have "\<forall>n. endswith n ''.mp3'' \<longrightarrow> lookup (OutputPath n) (files w1) = None"
    using Cons.prems same by simp
  from Cons.IH [OF this, of es1] obtain w' es' where
    "conversion_loop e items (w1, cs, es1) = Inr (w', cs, es')"
    "\<forall>n. lookup (OutputPath n) (files w') = lookup (OutputPath n) (files w1)"
    by blast
  then show ?case
    using step same by auto
qed

lemma deliver_nothing:
  "deliver [] errs fs
     = Inr (\<lparr>converted_files = [], errors = errs, downloads = [], zip_download = None\<rparr>, fs)"
  by (simp add: deliver_def)

section \<open>Facts about the delivery and the bundler\<close>

lemma download_each_Inr_iff:
  "download_each ps fs acc = Inr bs \<longleftrightarrow>
     (\<forall>p \<in> set ps. lookup p fs \<noteq> None)
     \<and> distinct (map (\<lambda>p. (name_of p, the (lookup p fs))) ps)
     \<and> set (map (\<lambda>p. (name_of p, the (lookup p fs))) ps) \<inter> set acc = {}
     \<and> bs = acc @ map (\<lambda>p. (name_of p, the (lookup p fs))) ps"
proof (induction ps arbitrary: acc)
  case Nil
  then show ?case by auto
next
  case (Cons p ps)
  show ?case
  proof (cases "lookup p fs")
    case None
    then show ?thesis by (simp add: read_bytes_def)
  next
    case (Some f)
    show ?thesis
    proof (cases "(name_of p, f) \<in> set acc")
      case True
      then show ?thesis using Some by (auto simp: read_bytes_def)
    next
      case False
      then have "download_each (p # ps) fs acc = download_each ps fs (acc @ [(name_of p, f)])"
        using Some by (simp add: read_bytes_def)
      then show ?thesis
        using Some False Cons.IH [of "acc @ [(name_of p, f)]"] by auto
    qed
  qed
qed

lemma zip_write_each_present:
  "\<forall>p \<in> set ps. lookup p fs \<noteq> None \<Longrightarrow>
   zip_write_each ps fs acc = Inr (acc @ map (\<lambda>p. (name_of p, the (lookup p fs))) ps)"
  by (induction ps arbitrary: acc) (auto simp: read_bytes_def)

lemma write_file_twice: "write_file p f (write_file p g fs) = write_file p f fs"
  by (cases p) simp_all

lemma create_zip_present:
  assumes "\<forall>p \<in> set ps. lookup p fs \<noteq> None" and "OutputPath zip_name \<notin> set ps"
  shows "create_zip ps fs
     = Inr (OutputPath zip_name,
            write_file (OutputPath zip_name)
              (ZipArchive (map (\<lambda>p. (name_of p, the (lookup p fs))) ps)) fs)"
proof -
  define fs0 where "fs0 = write_file (OutputPath zip_name) (ZipArchive []) fs"
  have same: "\<forall>p \<in> set ps. lookup p fs0 = lookup p fs"
    using assms(2) by (auto simp: fs0_def lookup_write_file simp del: write_file.simps)
  then have "\<forall>p \<in> set ps. lookup p fs0 \<noteq> None"
    using assms(1) by simp
  then have "zip_write_each ps fs0 [] = Inr ([] @ map (\<lambda>p. (name_of p, the (lookup p fs0))) ps)"
    by (rule zip_write_each_present)
  moreover have "map (\<lambda>p. (name_of p, the (lookup p fs0))) ps
                 = map (\<lambda>p. (name_of p, the (lookup p fs))) ps"
    using same by simp
  ultimately have "zip_write_each ps fs0 [] = Inr (map (\<lambda>p. (name_of p, the (lookup p fs))) ps)"
    by simp
  then show ?thesis
    unfolding create_zip_def Let_def fs0_def [symmetric]
    by (simp add: fs0_def write_file_twice del: write_file.simps)
qed

lemma deliver_Inr:
  assumes "deliver cs es fs = Inr (res, fs')" and "OutputPath zip_name \<notin> set cs"
  shows "converted_files res = cs \<and> errors res = es
     \<and> downloads res = map (\<lambda>p. (name_of p, the (lookup p fs))) cs
     \<and> distinct (downloads res)
     \<and> (if 1 < length cs
         then zip_download res = Some (zip_name, ZipArchive (downloads res))
              \<and> fs' = write_file (OutputPath zip_name) (ZipArchive (downloads res)) fs
         else zip_download res = None \<and> fs' = fs)"
proof (cases "cs = []")
  case True
  then show ?thesis
    using assms(1) by (auto simp: deliver_def)
next
  case False
  then obtain bs where r: "download_each cs fs [] = Inr bs"
    using assms(1) by (cases "download_each cs fs []") (simp_all add: deliver_def)
  then have all: "\<forall>p \<in> set cs. lookup p fs \<noteq> None"
    and bs: "bs = map (\<lambda>p. (name_of p, the (lookup p fs))) cs"
    and dist: "distinct bs"
    by (simp_all add: download_each_Inr_iff)
  show ?thesis
  proof (cases "1 < length cs")
    case True
    have z: "create_zip cs fs
       = Inr (OutputPath zip_name, write_file (OutputPath zip_name) (ZipArchive bs) fs)"
      unfolding bs using all assms(2) by (rule create_zip_present)
    have "read_bytes (OutputPath zip_name)
            (write_file (OutputPath zip_name) (ZipArchive bs) fs) = Inr (ZipArchive bs)"
      by (simp add: read_bytes_def lookup_write_file del: write_file.simps)
    then have "deliver cs es fs
       = Inr (\<lparr>converted_files = cs, errors = es, downloads = bs,
               zip_download = Some (zip_name, ZipArchive bs)\<rparr>,
              write_file (OutputPath zip_name) (ZipArchive bs) fs)"
      using False True r z by (simp add: deliver_def)
    then show ?thesis
      using assms(1) True bs dist by auto
  next
    case single: False
    then have "deliver cs es fs
       = Inr (\<lparr>converted_files = cs, errors = es, downloads = bs, zip_download = None\<rparr>, fs)"
      using False r by (simp add: deliver_def)
    then show ?thesis
      using assms(1) single bs dist by auto
  qed
qed

lemma zip_name_not_mp3: "\<not> endswith zip_name ''.mp3''"
  by (simp add: zip_name_def endswith_def)

lemma output_path_not_zip: "output_path_of u \<noteq> OutputPath zip_name"
proof
  assume "output_path_of u = OutputPath zip_name"
  then have "path_stem (name u) @ ''.mp3'' = zip_name"
    by (simp add: output_path_of_def)
  then have "endswith zip_name ''.mp3''"
    using endswith_mp3 [of "path_stem (name u)"] by simp
  then show False
    using zip_name_not_mp3 by simp
qed

lemma name_of_output_path: "name_of (output_path_of u) = path_stem (name u) @ ''.mp3''"
  by (simp add: output_path_of_def)

lemma distinct_names_of_outputs:
  "set cs \<subseteq> range output_path_of \<Longrightarrow> distinct (map name_of cs) \<longleftrightarrow> distinct cs"
proof -
  assume "set cs \<subseteq> range output_path_of"
  have "x = y" if x: "x \<in> set cs" and y: "y \<in> set cs" and n: "name_of x = name_of y" for x y
  proof -
    obtain a b where "x = output_path_of a" "y = output_path_of b"
      using x y \<open>set cs \<subseteq> range output_path_of\<close> by blast
    then show ?thesis
      using n by (simp add: output_path_of_def)
  qed
  then have "inj_on name_of (set cs)"
    by (intro inj_onI)
  then show ?thesis
    by (simp add: distinct_map)
qed

lemma validate_all_eq:
  "validate_all ups vs rs
     = (vs @ filter (\<lambda>u. fst (validate_file u)) ups,
        rs @ map (\<lambda>u. snd (validate_file u)) (filter (\<lambda>u. \<not> fst (validate_file u)) ups))"
  by (induction ups arbitrary: vs rs) (auto split: prod.splits)

text \<open>The handler of the button on an empty queue.\<close>

lemma run_batch_empty:
  "run_batch e [] w
     = Inr (\<lparr>converted_files = [], errors = [], downloads = [], zip_download = None\<rparr>,
            w\<lparr>files := (files w)\<lparr>output_dir := filter (\<lambda>(k, v). kept k) (output_dir (files w))\<rparr>\<rparr>)"
  by (simp add: run_batch_def clear_outputs_eq deliver_nothing)

text \<open>The script reaches the button, and with it the handler, only when some upload is
  valid; with none it shows the reasons and leaves the state as it is.\<close>

lemma script_without_valid_upload:
  assumes "\<forall>u \<in> set uploaded_files. \<not> fst (validate_file u)"
  shows "script e uploaded_files button w
     = (case check_ffmpeg e of
          Inl ex \<Rightarrow> Inl ex
        | Inr found \<Rightarrow>
            Inr (if \<not> found then FfmpegMissing
                 else if uploaded_files = [] then UploadPrompt
                 else Queue (map (\<lambda>u. snd (validate_file u)) uploaded_files) [],
                 w))"
proof -
  have "filter (\<lambda>u. fst (validate_file u)) uploaded_files = []"
    using assms by (simp add: filter_empty_conv)
  moreover have "filter (\<lambda>u. \<not> fst (validate_file u)) uploaded_files = uploaded_files"
    using assms by (simp add: filter_id_conv)
  ultimately have "validate_all uploaded_files [] []
                   = ([], map (\<lambda>u. snd (validate_file u)) uploaded_files)"
    by (simp add: validate_all_eq)
  then show ?thesis
    by (simp add: script_def split: sum.splits)
qed

section \<open>Facts about a delivered batch\<close>

text \<open>
  When the handler of the button returns, the bundle is there if and only if more than one
  file was converted; there is one download for each converted file, named by its base
  name, in order; no output path was converted twice, so the names are free of duplicates;
  the bundle, when there, is \<open>todos_mp3.zip\<close> in the output directory and its entries
  are the downloads, names and bytes, in order; with at most one converted file the bundler
  is not run and the state is the one the conversion loop left.
\<close>

lemma delivered_bundle:
  assumes "run_batch e valid_files w = Inr (res, w')"
  shows "(zip_download res \<noteq> None \<longleftrightarrow> 1 < length (converted_files res))
     \<and> map fst (downloads res) = map name_of (converted_files res)
     \<and> distinct (converted_files res) \<and> distinct (map fst (downloads res))
     \<and> (1 < length (converted_files res) \<longrightarrow>
          zip_download res = Some (''todos_mp3.zip'', ZipArchive (downloads res))
          \<and> lookup (OutputPath ''todos_mp3.zip'') (files w') = Some (ZipArchive (downloads res)))
     \<and> (length (converted_files res) \<le> 1 \<longrightarrow>
          (\<exists>fs0. clear_outputs (files w) = Inr fs0
             \<and> conversion_loop e valid_files (w\<lparr>files := fs0\<rparr>, [], [])
                 = Inr (w', converted_files res, errors res)))"
proof -
  obtain fs0 where clr: "clear_outputs (files w) = Inr fs0"
    using clear_outputs_eq by blast
  from conversion_loop_outcomes [of valid_files e "w\<lparr>files := fs0\<rparr>" "[]" "[]"]
  obtain w1 rs where
    loop: "conversion_loop e valid_files (w\<lparr>files := fs0\<rparr>, [], [])
       = Inr (w1,
              map (\<lambda>(u, r). output_path_of u) (filter (\<lambda>(u, r). success r) (zip valid_files rs)),
              map (\<lambda>(u, r). name u @ '': '' @ error r)
                (filter (\<lambda>(u, r). \<not> success r) (zip valid_files rs)))"
    by auto
  define cs where
    "cs = map (\<lambda>(u, r). output_path_of u) (filter (\<lambda>(u, r). success r) (zip valid_files rs))"
  define es where
    "es = map (\<lambda>(u, r). name u @ '': '' @ error r)
            (filter (\<lambda>(u, r). \<not> success r) (zip valid_files rs))"
  have loop': "conversion_loop e valid_files (w\<lparr>files := fs0\<rparr>, [], []) = Inr (w1, cs, es)"
    using loop by (simp add: cs_def es_def)
  have range: "set cs \<subseteq> range output_path_of"
    by (auto simp: cs_def)
  then have nozip: "OutputPath zip_name \<notin> set cs"
    using output_path_not_zip by (metis imageE subsetD)
  obtain fs2 where d: "deliver cs es (files w1) = Inr (res, fs2)" and w': "w' = w1\<lparr>files := fs2\<rparr>"
    using assms by (auto simp: run_batch_def clr loop' split: sum.splits)
  note facts = deliver_Inr [OF d nozip]
  have conv: "converted_files res = cs" and errs: "errors res = es"
    and dl: "downloads res = map (\<lambda>p. (name_of p, the (lookup p (files w1)))) cs"
    using facts by simp_all
  have dd: "distinct (downloads res)"
    using facts by blast
  have names: "map fst (downloads res) = map name_of (converted_files res)"
    by (simp add: dl conv comp_def)
  have "distinct (map (\<lambda>p. (name_of p, the (lookup p (files w1)))) cs)"
    using dd dl by simp
  then have dcs: "distinct cs"
    by (simp add: distinct_map)
  then have dconv: "distinct (converted_files res)"
    by (simp add: conv)
  have dnames: "distinct (map fst (downloads res))"
    unfolding names conv using dcs distinct_names_of_outputs [OF range] by simp
  have several: "zip_download res = Some (''todos_mp3.zip'', ZipArchive (downloads res))
          \<and> lookup (OutputPath ''todos_mp3.zip'') (files w') = Some (ZipArchive (downloads res))"
    if "1 < length (converted_files res)"
  proof -
    have "zip_download res = Some (zip_name, ZipArchive (downloads res))"
      and "fs2 = write_file (OutputPath zip_name) (ZipArchive (downloads res)) (files w1)"
      using facts that conv by simp_all
    then show ?thesis
      by (simp add: w' lookup_write_file zip_name_def del: write_file.simps)
  qed
  have few: "zip_download res = None \<and> w' = w1" if "length (converted_files res) \<le> 1"
  proof -
    have "zip_download res = None \<and> fs2 = files w1"
      using facts that conv by auto
    then show ?thesis
      by (simp add: w')
  qed
  have iff: "zip_download res \<noteq> None \<longleftrightarrow> 1 < length (converted_files res)"
    using several few by (cases "1 < length (converted_files res)") auto
  have last: "\<exists>fs0. clear_outputs (files w) = Inr fs0
             \<and> conversion_loop e valid_files (w\<lparr>files := fs0\<rparr>, [], [])
                 = Inr (w', converted_files res, errors res)"
    if "length (converted_files res) \<le> 1"
    using few [OF that] clr loop' conv errs by auto
  from iff names dconv dnames several last show ?thesis
    by blast
qed

text \<open>The spec's scenario of two uploads that both convert: the bundle holds both.\<close>

lemma delivered_bundle_example:
  "run_batch env_ok [upload ''a.mp4'' 3, upload ''b.mp4'' 3] empty_world
     = Inr (\<lparr>converted_files = [OutputPath ''a.mp3'', OutputPath ''b.mp3''], errors = [],
             downloads = [(''a.mp3'', Data ''ID3''), (''b.mp3'', Data ''ID3'')],
             zip_download = Some (''todos_mp3.zip'',
               ZipArchive [(''a.mp3'', Data ''ID3''), (''b.mp3'', Data ''ID3'')])\<rparr>,
            \<lparr>files = \<lparr>output_dir =
                        [(''a.mp3'', Data ''ID3''), (''b.mp3'', Data ''ID3''),
                         (''todos_mp3.zip'',
                          ZipArchive [(''a.mp3'', Data ''ID3''), (''b.mp3'', Data ''ID3'')])],
                      tmp_dir = []\<rparr>,
             calls = [ffmpeg_args (TmpPath ''/tmp/tmp.mp4'') (OutputPath ''a.mp3''),
                      ffmpeg_args (TmpPath ''/tmp/tmpa.mp4'') (OutputPath ''b.mp3'')]\<rparr>)"
  by code_simp

section \<open>The conversion loop: one outcome for each accepted upload\<close>

text \<open>
  Claim C1. From any state and with any transcoder, the conversion loop over the accepted
  uploads ends without an exception. There is one outcome for each upload, in upload
  order, such that the converted files are the output paths of the uploads whose outcome
  is a success, in upload order, and the errors are the lines "name: message" of the
  uploads whose outcome is a failure, in upload order; so the two lists together have one
  entry for each upload. The transcoder is started once for each upload, in upload order
  (the conversions started, read by their output argument, are those of the uploads).
\<close>

theorem batch_outcomes_complete:
  "\<exists>w' rs converted errs.
     conversion_loop e valid_files (w, [], []) = Inr (w', converted, errs)
     \<and> length rs = length valid_files
     \<and> converted = map (\<lambda>(u, r). output_path_of u)
                      (filter (\<lambda>(u, r). success r) (zip valid_files rs))
     \<and> errs = map (\<lambda>(u, r). name u @ '': '' @ error r)
                 (filter (\<lambda>(u, r). \<not> success r) (zip valid_files rs))
     \<and> length converted + length errs = length valid_files
     \<and> map last (calls w')
         = map last (calls w) @ map (\<lambda>u. path_str (output_path_of u)) valid_files"
proof -
  from conversion_loop_outcomes [of valid_files e w "[]" "[]"] obtain w' rs where
    len: "length rs = length valid_files" and
    run: "conversion_loop e valid_files (w, [], [])
       = Inr (w',
              map (\<lambda>(u, r). output_path_of u) (filter (\<lambda>(u, r). success r) (zip valid_files rs)),
              map (\<lambda>(u, r). name u @ '': '' @ error r)
                (filter (\<lambda>(u, r). \<not> success r) (zip valid_files rs)))" and
    log: "map last (calls w')
         = map last (calls w) @ map (\<lambda>u. path_str (output_path_of u)) valid_files"
    by auto
  have "length (filter (\<lambda>(u, r). success r) (zip valid_files rs))
        + length (filter (\<lambda>(u, r). \<not> success r) (zip valid_files rs))
        = length (zip valid_files rs)"
    unfolding case_prod_unfold by (rule sum_length_filter_compl)
  then have "length (map (\<lambda>(u, r). output_path_of u)
                       (filter (\<lambda>(u, r). success r) (zip valid_files rs)))
             + length (map (\<lambda>(u, r). name u @ '': '' @ error r)
                         (filter (\<lambda>(u, r). \<not> success r) (zip valid_files rs)))
             = length valid_files"
    using len by simp
  with len run log show ?thesis by blast
qed

theorem batch_outcomes_complete_witness:
  "\<exists>w' (rs :: conversion list). length rs = length [upload ''a.mp4'' 3, upload ''b.mp4'' 3]
     \<and> conversion_loop env_mixed [upload ''a.mp4'' 3, upload ''b.mp4'' 3] (empty_world, [], [])
         = Inr (w', [OutputPath ''a.mp3''], [''b.mp4: unsupported codec''])
     \<and> map last (calls w') = [''output/a.mp3'', ''output/b.mp3'']"
proof -
  have run: "conversion_loop env_mixed [upload ''a.mp4'' 3, upload ''b.mp4'' 3] (empty_world, [], [])
     = Inr (\<lparr>files = \<lparr>output_dir = [(''a.mp3'', Data ''ID3'')], tmp_dir = []\<rparr>,
             calls = [ffmpeg_args (TmpPath ''/tmp/tmp.mp4'') (OutputPath ''a.mp3''),
                      ffmpeg_args (TmpPath ''/tmp/tmpa.mp4'') (OutputPath ''b.mp3'')]\<rparr>,
            [OutputPath ''a.mp3''], [''b.mp4: unsupported codec''])"
    by code_simp
  from batch_outcomes_complete [of env_mixed "[upload ''a.mp4'' 3, upload ''b.mp4'' 3]" empty_world]
  obtain w' and rs :: "conversion list" and converted errs where
    "conversion_loop env_mixed [upload ''a.mp4'' 3, upload ''b.mp4'' 3] (empty_world, [], [])
       = Inr (w', converted, errs)"
    "length rs = length [upload ''a.mp4'' 3, upload ''b.mp4'' 3]"
    "map last (calls w') = map last (calls empty_world)
       @ map (\<lambda>u. path_str (output_path_of u)) [upload ''a.mp4'' 3, upload ''b.mp4'' 3]"
    by blast
  moreover have "map (\<lambda>u. path_str (output_path_of u)) [upload ''a.mp4'' 3, upload ''b.mp4'' 3]
      = [''output/a.mp3'', ''output/b.mp3'']"
    by code_simp
  ultimately show ?thesis
    using run by (auto simp: empty_world_def)
qed

section \<open>The clearing step: nothing of an earlier batch survives\<close>

text \<open>
  Claim C2. The clearing step, with which every batch starts, never raises, and the file
  system it leaves has no \<open>*.mp3\<close> file and no bundle in the output directory. Since it
  runs before the first conversion, no output of an earlier batch can be taken for an
  output of this one: with a transcoder that writes nothing, whatever the output directory
  held before and whatever the transcoder reports, the batch ends with no converted file,
  no download and no bundle.
\<close>

theorem clearing_removes_earlier_outputs:
  "(\<exists>fs'. clear_outputs (files w) = Inr fs'
      \<and> glob_mp3 fs' = []
      \<and> (\<forall>n. endswith n ''.mp3'' \<longrightarrow> \<not> path_exists (OutputPath n) fs')
      \<and> \<not> path_exists (OutputPath ''todos_mp3.zip'') fs')
   \<and> ((\<forall>i argv fs0. snd (ffmpeg e i argv fs0) = fs0) \<longrightarrow>
       (\<exists>res w'. run_batch e valid_files w = Inr (res, w')
          \<and> converted_files res = [] \<and> downloads res = [] \<and> zip_download res = None
          \<and> glob_mp3 (files w') = []
          \<and> \<not> path_exists (OutputPath ''todos_mp3.zip'') (files w')))"
proof -
  define fs1 where "fs1 = (files w)\<lparr>output_dir := filter (\<lambda>(k, v). kept k) (output_dir (files w))\<rparr>"
  have clr: "clear_outputs (files w) = Inr fs1"
    unfolding fs1_def by (rule clear_outputs_eq)
  have mp3: "\<forall>n. endswith n ''.mp3'' \<longrightarrow> lookup (OutputPath n) fs1 = None"
    unfolding fs1_def lookup_cleared by (simp add: kept_def)
  have zip: "lookup (OutputPath zip_name) fs1 = None"
    unfolding fs1_def lookup_cleared by (simp add: kept_def)
  have first: "\<exists>fs'. clear_outputs (files w) = Inr fs'
      \<and> glob_mp3 fs' = []
      \<and> (\<forall>n. endswith n ''.mp3'' \<longrightarrow> \<not> path_exists (OutputPath n) fs')
      \<and> \<not> path_exists (OutputPath ''todos_mp3.zip'') fs'"
    using clr mp3 zip by (simp add: glob_mp3_empty_iff path_exists_def zip_name_def)
  have second: "\<exists>res w'. run_batch e valid_files w = Inr (res, w')
          \<and> converted_files res = [] \<and> downloads res = [] \<and> zip_download res = None
          \<and> glob_mp3 (files w') = []
          \<and> \<not> path_exists (OutputPath ''todos_mp3.zip'') (files w')"
    if inert: "\<forall>i argv fs0. snd (ffmpeg e i argv fs0) = fs0"
  proof -
    have "\<forall>n. endswith n ''.mp3'' \<longrightarrow> lookup (OutputPath n) (files (w\<lparr>files := fs1\<rparr>)) = None"
      using mp3 by simp
    from inert_loop [OF inert this, of valid_files "[]" "[]"] obtain w1 es1 where
      loop: "conversion_loop e valid_files (w\<lparr>files := fs1\<rparr>, [], []) = Inr (w1, [], es1)" and
      same: "\<forall>n. lookup (OutputPath n) (files w1) = lookup (OutputPath n) fs1"
      by auto
    have "run_batch e valid_files w
            = Inr (\<lparr>converted_files = [], errors = es1, downloads = [], zip_download = None\<rparr>, w1)"
      by (simp add: run_batch_def clr loop deliver_nothing)
    moreover have "glob_mp3 (files w1) = []"
      using mp3 same by (simp add: glob_mp3_empty_iff)
    moreover have "\<not> path_exists (OutputPath ''todos_mp3.zip'') (files w1)"
      using zip same by (simp add: path_exists_def zip_name_def)
    ultimately show ?thesis by simp
  qed
  from first second show ?thesis by blast
qed

theorem clearing_removes_earlier_outputs_witness:
  "(\<forall>i argv fs0. snd (ffmpeg env_inert i argv fs0) = fs0)
   \<and> glob_mp3 (files stale_world) = [OutputPath ''old.mp3'']
   \<and> (\<exists>res w'. run_batch env_inert [upload ''old.mp4'' 3] stale_world = Inr (res, w')
          \<and> converted_files res = [] \<and> downloads res = [] \<and> zip_download res = None
          \<and> glob_mp3 (files w') = []
          \<and> \<not> path_exists (OutputPath ''todos_mp3.zip'') (files w'))"
proof -
  have inert: "\<forall>i argv fs0. snd (ffmpeg env_inert i argv fs0) = fs0"
    by (simp add: env_inert_def)
  have "glob_mp3 (files stale_world) = [OutputPath ''old.mp3'']"
    by code_simp
  then show ?thesis
    using inert clearing_removes_earlier_outputs [of stale_world env_inert "[upload ''old.mp4'' 3]"]
    by blast
qed

section \<open>The bundle\<close>

text \<open>
  Claim C3 holds of every batch that is delivered (lemma \<open>delivered_bundle\<close>), but the
  program does not deliver every batch with more than one converted file. Two accepted
  uploads with the same base name, \<open>clip.mp4\<close> and \<open>clip.MP4\<close>, are both
  converted, to the same output path; the two download buttons made for that path are the
  same element, the second one raises, and the handler ends with that exception before the
  bundler is reached: two files were converted and no bundle is produced.
\<close>

theorem same_base_name_no_bundle:
  "fst (validate_file (upload ''clip.mp4'' 3)) \<and> fst (validate_file (upload ''clip.MP4'' 3))
   \<and> (case conversion_loop env_ok [upload ''clip.mp4'' 3, upload ''clip.MP4'' 3]
              (empty_world, [], []) of
        Inl ex \<Rightarrow> False
      | Inr (w', converted, errs) \<Rightarrow>
          converted = [OutputPath ''clip.mp3'', OutputPath ''clip.mp3''] \<and> errs = []
          \<and> lookup (OutputPath ''todos_mp3.zip'') (files w') = None)
   \<and> run_batch env_ok [upload ''clip.mp4'' 3, upload ''clip.MP4'' 3] empty_world
       = Inl (OtherException msg_duplicate_id)"
  by code_simp

section \<open>Input validation: the rules\<close>

text \<open>
  Claim C4. The verdict on an upload is a function of its name and its size alone, and
  the rules apply in order, the first match winning: a name that does not end in
  \<open>.mp4\<close>, in any mix of upper and lower case, is rejected with a reason that quotes the
  name; otherwise a size of zero is rejected as empty; otherwise a size above 500 MiB
  (524288000 bytes) is rejected as too big; otherwise the upload is accepted with the empty
  reason.
\<close>

theorem validate_file_rules:
  "validate_file u =
     (if \<not> (\<exists>stem ext. name u = stem @ ext \<and> ext \<in> mp4_extensions) then
        (False, [CHR 0x27] @ name u @ [CHR 0x27] @ msg_not_mp4)
      else if fsize u = 0 then
        (False, [CHR 0x27] @ name u @ [CHR 0x27] @ msg_empty)
      else if 524288000 < fsize u then
        (False, [CHR 0x27] @ name u @ [CHR 0x27] @ msg_too_big)
      else (True, []))
   \<and> (\<forall>v. name v = name u \<and> fsize v = fsize u \<longrightarrow> validate_file v = validate_file u)"
proof
  show "validate_file u =
     (if \<not> (\<exists>stem ext. name u = stem @ ext \<and> ext \<in> mp4_extensions) then
        (False, [CHR 0x27] @ name u @ [CHR 0x27] @ msg_not_mp4)
      else if fsize u = 0 then
        (False, [CHR 0x27] @ name u @ [CHR 0x27] @ msg_empty)
      else if 524288000 < fsize u then
        (False, [CHR 0x27] @ name u @ [CHR 0x27] @ msg_too_big)
      else (True, []))"
    unfolding validate_file_def endswith_lower_mp4 quoted_def by auto
  show "\<forall>v. name v = name u \<and> fsize v = fsize u \<longrightarrow> validate_file v = validate_file u"
    by (simp add: validate_file_def)
qed

theorem validate_file_rules_witness:
  "validate_file (upload ''a.MP4'' 5242880) = (True, [])
   \<and> validate_file (upload ''b.mp4'' 0) = (False, [CHR 0x27] @ ''b.mp4'' @ [CHR 0x27] @ msg_empty)
   \<and> validate_file (upload ''c.mp4'' 629145600)
       = (False, [CHR 0x27] @ ''c.mp4'' @ [CHR 0x27] @ msg_too_big)
   \<and> validate_file (upload ''d.mp3'' 0) = (False, [CHR 0x27] @ ''d.mp3'' @ [CHR 0x27] @ msg_not_mp4)
   \<and> validate_file \<lparr>name = ''a.MP4'', fsize = 5242880, getbuffer = []\<rparr>
       = validate_file (upload ''a.MP4'' 5242880)"
proof -
  have a: "\<exists>stem ext. ''a.MP4'' = stem @ ext \<and> ext \<in> mp4_extensions"
    by (rule exI [of _ "''a''"], rule exI [of _ "''.MP4''"]) (simp add: mp4_extensions_def)
  have b: "\<exists>stem ext. ''b.mp4'' = stem @ ext \<and> ext \<in> mp4_extensions"
    by (rule exI [of _ "''b''"], rule exI [of _ "''.mp4''"]) (simp add: mp4_extensions_def)
  have c: "\<exists>stem ext. ''c.mp4'' = stem @ ext \<and> ext \<in> mp4_extensions"
    by (rule exI [of _ "''c''"], rule exI [of _ "''.mp4''"]) (simp add: mp4_extensions_def)
  have d: "\<not> (\<exists>stem ext. ''d.mp3'' = stem @ ext \<and> ext \<in> mp4_extensions)"
    using endswith_lower_mp4 [of "''d.mp3''"]
    by (simp add: endswith_def lower_def lower_char_def)
  show ?thesis
    using validate_file_rules [of "upload ''a.MP4'' 5242880"]
      validate_file_rules [of "upload ''b.mp4'' 0"]
      validate_file_rules [of "upload ''c.mp4'' 629145600"]
      validate_file_rules [of "upload ''d.mp3'' 0"]
      a b c d
    by (simp add: upload_def)
qed

section \<open>Timeouts\<close>

text \<open>
  Claim C5, as stated, fails: the worker deletes nothing from the output directory, so what
  a transcoder wrote before it was stopped stays there. Here one upload is converted by a
  transcoder that is stopped by the timeout after it has started its output file.
\<close>

theorem timeout_leaves_output_counterexample:
  "(case run_batch env_stalls [upload ''a.mp4'' 3] empty_world of
      Inl ex \<Rightarrow> False
    | Inr (res, w') \<Rightarrow>
        errors res = [''a.mp4: '' @ msg_timeout]
        \<and> lookup (OutputPath ''a.mp3'') (files w') = Some (Data ''ID3''))"
  by code_simp

text \<open>
  Claim C5, amended. When the transcoder started for an upload is stopped by the timeout,
  the conversion fails with the timeout message, the upload is recorded among the errors
  under that message and not among the converted files, and the output directory is left as
  the transcoder left it: the worker removes nothing from it.
\<close>

theorem timeout_is_failure:
  assumes "launch e u w = (Inl (TimeoutExpired m), fs')"
  shows "fst (convert_mp4_to_mp3 e (tmp_path_of e w) (output_path_of u) (staged e u w))
           = Failed msg_timeout
       \<and> (\<exists>w'. convert_item e u (w, cs, es) = Inr (w', cs, es @ [name u @ '': '' @ msg_timeout])
               \<and> output_dir (files w') = output_dir fs')"
proof -
  have "ffmpeg e (length (calls (staged e u w)))
          (ffmpeg_args (tmp_path_of e w) (output_path_of u)) (files (staged e u w))
        = (Inl (TimeoutExpired m), fs')"
    using assms by (simp add: launch_def staged_def)
  then have c: "fst (convert_mp4_to_mp3 e (tmp_path_of e w) (output_path_of u) (staged e u w))
                  = Failed msg_timeout"
    by (rule convert_timeout)
  moreover have "output_dir (remove_file (tmp_path_of e w) fs') = output_dir fs'"
    by (simp add: tmp_path_of_def)
  ultimately show ?thesis
    using convert_item_eq [OF assms, of cs es] by auto
qed

theorem timeout_is_failure_witness:
  "launch env_stalls (upload ''a.mp4'' 3) empty_world
     = (Inl (TimeoutExpired ''timed out after 300 seconds''),
        \<lparr>output_dir = [(''a.mp3'', Data ''ID3'')], tmp_dir = [(''/tmp/tmp.mp4'', Data ''vvv'')]\<rparr>)
   \<and> (\<exists>w'. convert_item env_stalls (upload ''a.mp4'' 3) (empty_world, [], [])
              = Inr (w', [], [''a.mp4: '' @ msg_timeout])
          \<and> output_dir (files w') = [(''a.mp3'', Data ''ID3'')])"
proof -
  have l: "launch env_stalls (upload ''a.mp4'' 3) empty_world
     = (Inl (TimeoutExpired ''timed out after 300 seconds''),
        \<lparr>output_dir = [(''a.mp3'', Data ''ID3'')], tmp_dir = [(''/tmp/tmp.mp4'', Data ''vvv'')]\<rparr>)"
    by code_simp
  show ?thesis
    using l timeout_is_failure [OF l, of "[]" "[]"] by (simp add: upload_def)
qed

section \<open>The capability probe\<close>

text \<open>
  Claim C6, as stated, fails: an exception of the version query other than "file not
  found" and "timeout" (here a permission error) leaves \<open>check_ffmpeg\<close> as it is, so the
  probe returns no boolean.
\<close>

theorem check_ffmpeg_propagates_counterexample:
  "check_ffmpeg env_no_permission = Inl (OtherException ''[Errno 13] Permission denied'')"
  by (simp add: check_ffmpeg_def env_no_permission_def)

text \<open>
  Claim C6, amended. The probe returns true exactly when the version query completes with
  exit code 0; a missing binary, a timeout and a nonzero exit code each give false; and the
  only exceptions that leave the probe are those of the version query that are neither
  "file not found" nor "timeout".
\<close>

theorem check_ffmpeg_outcomes:
  "(check_ffmpeg e = Inr True \<longleftrightarrow> (\<exists>r. ffmpeg_version e = Inr r \<and> returncode r = 0))
   \<and> (\<forall>m. ffmpeg_version e = Inl (FileNotFoundError m) \<longrightarrow> check_ffmpeg e = Inr False)
   \<and> (\<forall>m. ffmpeg_version e = Inl (TimeoutExpired m) \<longrightarrow> check_ffmpeg e = Inr False)
   \<and> (\<forall>r. ffmpeg_version e = Inr r \<and> returncode r \<noteq> 0 \<longrightarrow> check_ffmpeg e = Inr False)
   \<and> (\<forall>ex. check_ffmpeg e = Inl ex \<longleftrightarrow>
         ffmpeg_version e = Inl ex
         \<and> (\<forall>m. ex \<noteq> FileNotFoundError m) \<and> (\<forall>m. ex \<noteq> TimeoutExpired m))"
  by (auto simp: check_ffmpeg_def split: sum.splits py_exception.splits)

theorem check_ffmpeg_outcomes_witness:
  "check_ffmpeg (env_no_permission\<lparr>ffmpeg_version := exit_with 0 []\<rparr>) = Inr True
   \<and> check_ffmpeg (env_no_permission\<lparr>ffmpeg_version := exit_with 1 []\<rparr>) = Inr False
   \<and> check_ffmpeg (env_no_permission\<lparr>ffmpeg_version := Inl (FileNotFoundError ''ffmpeg'')\<rparr>)
       = Inr False
   \<and> check_ffmpeg (env_no_permission\<lparr>ffmpeg_version := Inl (TimeoutExpired ''10'')\<rparr>)
       = Inr False"
  using check_ffmpeg_outcomes [of "env_no_permission\<lparr>ffmpeg_version := exit_with 0 []\<rparr>"]
    check_ffmpeg_outcomes [of "env_no_permission\<lparr>ffmpeg_version := exit_with 1 []\<rparr>"]
    check_ffmpeg_outcomes [of "env_no_permission\<lparr>ffmpeg_version := Inl (FileNotFoundError ''ffmpeg'')\<rparr>"]
    check_ffmpeg_outcomes [of "env_no_permission\<lparr>ffmpeg_version := Inl (TimeoutExpired ''10'')\<rparr>"]
  by (simp add: exit_with_def)

section \<open>The message of a failed conversion\<close>

text \<open>
  Claim C7, as stated, fails: the worker strips white space from both ends of the whole
  diagnostic text before it takes the last line, so a last line that ends with a space is
  reported without that space.
\<close>

theorem nonzero_exit_message_counterexample:
  "fst (convert_mp4_to_mp3 env_rejects (TmpPath ''/tmp/tmp.mp4'') (OutputPath ''b.mp3'') empty_world)
     = Failed ''unsupported codec''
   \<and> last_nonempty_line rejects_diag = ''unsupported codec ''"
  by code_simp

text \<open>
  Claim C7, amended. When the transcoder exits with a nonzero code, the conversion fails
  and its message is the last line of the diagnostic text once that text is stripped of white
  space at both ends (the white space of Python, the code points beyond ASCII included):
  the empty message when the text is white space only; otherwise the last line that holds a
  code point other than white space, without its trailing white space, and without its
  leading white space when no earlier line holds such a code point. In particular the
  message is the last non-empty line of the diagnostic text whenever that line neither
  starts nor ends with white space and only line feeds follow it. The text is given below as
  the list of its code points.
\<close>

theorem nonzero_exit_message:
  assumes "ffmpeg e (length (calls w)) (ffmpeg_args inp outp) (files w) = (Inr cp, fs')"
    and "returncode cp \<noteq> 0"
  shows "\<exists>msg. fst (convert_mp4_to_mp3 e inp outp w) = Failed msg
     \<and> (\<forall>ws. stderr cp = concat ws \<and> set ws \<subseteq> set space_codes \<longrightarrow> msg = [])
     \<and> (\<forall>pre line ws.
           stderr cp = concat (pre @ line @ ws)
           \<and> (\<forall>c \<in> set (pre @ line). utf8_char c)
           \<and> set ws \<subseteq> set space_codes
           \<and> line \<noteq> [] \<and> CHR 0x0A \<notin> set (concat line) \<and> last line \<notin> set space_codes
           \<and> (set pre \<subseteq> set space_codes \<and> hd line \<notin> set space_codes
                \<or> pre \<noteq> [] \<and> last pre = [CHR 0x0A] \<and> \<not> set pre \<subseteq> set space_codes)
           \<longrightarrow> msg = concat line)
     \<and> (\<forall>pre line k.
           stderr cp = concat (pre @ line) @ replicate k CHR 0x0A
           \<and> (\<forall>c \<in> set (pre @ line). utf8_char c)
           \<and> (pre = [] \<or> last pre = [CHR 0x0A])
           \<and> line \<noteq> [] \<and> CHR 0x0A \<notin> set (concat line)
           \<and> hd line \<notin> set space_codes \<and> last line \<notin> set space_codes
           \<longrightarrow> msg = last_nonempty_line (stderr cp))"
proof -
  define msg where "msg = last (split (strip (stderr cp)) CHR 0x0A)"
  have m: "fst (convert_mp4_to_mp3 e inp outp w) = Failed msg"
    using convert_completed [OF assms(1)] assms(2) by (simp add: msg_def)
  have blank: "msg = []" if "stderr cp = concat ws" "set ws \<subseteq> set space_codes" for ws
    unfolding msg_def that(1) strip_blank [OF that(2)] by simp
  have shape: "msg = concat line"
    if "stderr cp = concat (pre @ line @ ws)"
      "\<forall>c \<in> set (pre @ line). utf8_char c"
      "set ws \<subseteq> set space_codes"
      "line \<noteq> []" "CHR 0x0A \<notin> set (concat line)" "last line \<notin> set space_codes"
      "set pre \<subseteq> set space_codes \<and> hd line \<notin> set space_codes
        \<or> pre \<noteq> [] \<and> last pre = [CHR 0x0A] \<and> \<not> set pre \<subseteq> set space_codes"
    for pre line ws
    unfolding msg_def that(1)
    using that(2) that(3) that(4) that(5) that(6) that(7) by (rule last_line_of_stripped)
  have usual: "msg = last_nonempty_line (stderr cp)"
    if h: "stderr cp = concat (pre @ line) @ replicate k CHR 0x0A"
      "\<forall>c \<in> set (pre @ line). utf8_char c"
      "pre = [] \<or> last pre = [CHR 0x0A]"
      "line \<noteq> []" "CHR 0x0A \<notin> set (concat line)"
      "hd line \<notin> set space_codes" "last line \<notin> set space_codes"
    for pre line k
  proof -
    define ws :: "string list" where "ws = replicate k [CHR 0x0A]"
    have cw: "concat ws = replicate k CHR 0x0A"
      unfolding ws_def by (induction k) simp_all
    have ws: "set ws \<subseteq> set space_codes"
      using newline_is_space by (auto simp: ws_def)
    have whole: "stderr cp = concat (pre @ line @ ws)"
      using h(1) cw by simp
    have "set pre \<subseteq> set space_codes \<and> hd line \<notin> set space_codes
        \<or> pre \<noteq> [] \<and> last pre = [CHR 0x0A] \<and> \<not> set pre \<subseteq> set space_codes"
    proof (cases "set pre \<subseteq> set space_codes")
      case True
      then show ?thesis using h(6) by simp
    next
      case False
      then have "pre \<noteq> []" by auto
      then show ?thesis using False h(3) by simp
    qed
    from shape [OF whole h(2) ws h(4) h(5) h(7) this]
    have "msg = concat line" .
    moreover have "last_nonempty_line (stderr cp) = concat line"
    proof -
      have "last line \<in> set line"
        using h(4) by simp
      then have "last line \<noteq> []"
        using h(2) by (auto simp: utf8_char_def)
      then have ne: "concat line \<noteq> []"
        using \<open>last line \<in> set line\<close> by auto
      have pre: "concat pre = [] \<or> last (concat pre) = CHR 0x0A"
      proof (cases "pre = []")
        case True
        then show ?thesis by simp
      next
        case False
        then have "pre = butlast pre @ [[CHR 0x0A]]"
          using h(3) by (metis append_butlast_last_id)
        then have "concat pre = concat (butlast pre) @ [CHR 0x0A]"
          by (metis concat.simps concat_append append_Nil2)
        then show ?thesis by simp
      qed
      have "stderr cp = concat pre @ concat line @ replicate k CHR 0x0A"
        using h(1) by simp
      then show ?thesis
        using last_nonempty_line_eq [OF pre ne h(5), of k] by simp
    qed
    ultimately show ?thesis by simp
  qed
  show ?thesis
  proof (rule exI [of _ msg], intro conjI allI impI)
    show "fst (convert_mp4_to_mp3 e inp outp w) = Failed msg"
      by (rule m)
  next
    fix ws
    assume "stderr cp = concat ws \<and> set ws \<subseteq> set space_codes"
    then show "msg = []"
      by (elim conjE) (rule blank; assumption)
  next
    fix pre line ws
    assume "stderr cp = concat (pre @ line @ ws)
           \<and> (\<forall>c \<in> set (pre @ line). utf8_char c)
           \<and> set ws \<subseteq> set space_codes
           \<and> line \<noteq> [] \<and> CHR 0x0A \<notin> set (concat line) \<and> last line \<notin> set space_codes
           \<and> (set pre \<subseteq> set space_codes \<and> hd line \<notin> set space_codes
                \<or> pre \<noteq> [] \<and> last pre = [CHR 0x0A] \<and> \<not> set pre \<subseteq> set space_codes)"
    then show "msg = concat line"
      by (elim conjE) (rule shape; assumption)
  next
    fix pre line k
    assume "stderr cp = concat (pre @ line) @ replicate k CHR 0x0A
           \<and> (\<forall>c \<in> set (pre @ line). utf8_char c)
           \<and> (pre = [] \<or> last pre = [CHR 0x0A])
           \<and> line \<noteq> [] \<and> CHR 0x0A \<notin> set (concat line)
           \<and> hd line \<notin> set space_codes \<and> last line \<notin> set space_codes"
    then show "msg = last_nonempty_line (stderr cp)"
      by (elim conjE) (rule usual; assumption)
  qed
qed

theorem nonzero_exit_message_witness:
  "fst (convert_mp4_to_mp3 env_rejects_nbsp (TmpPath ''/tmp/tmp.mp4'') (OutputPath ''b.mp3'')
          empty_world)
     = Failed ''unsupported codec''"
proof -
  let ?cp = "\<lparr>returncode = 1, stdout = [], stderr = nbsp_diag\<rparr>"
  let ?pre = "ascii (''ffmpeg version 6.0'' @ [CHR 0x0A])"
  let ?line = "ascii ''unsupported codec''"
  let ?ws = "[[CHR 0xC2, CHR 0xA0], [CHR 0x0A]]"
  have run: "ffmpeg env_rejects_nbsp (length (calls empty_world))
               (ffmpeg_args (TmpPath ''/tmp/tmp.mp4'') (OutputPath ''b.mp3'')) (files empty_world)
             = (Inr ?cp, files empty_world)"
    by (simp add: env_rejects_nbsp_def exit_with_def)
  have rc: "returncode ?cp \<noteq> 0"
    by simp
  have shape: "stderr ?cp = concat (?pre @ ?line @ ?ws)
      \<and> (\<forall>c \<in> set (?pre @ ?line). utf8_char c)
      \<and> set ?ws \<subseteq> set space_codes
      \<and> ?line \<noteq> [] \<and> CHR 0x0A \<notin> set (concat ?line) \<and> last ?line \<notin> set space_codes
      \<and> (set ?pre \<subseteq> set space_codes \<and> hd ?line \<notin> set space_codes
           \<or> ?pre \<noteq> [] \<and> last ?pre = [CHR 0x0A] \<and> \<not> set ?pre \<subseteq> set space_codes)"
    by code_simp
  from nonzero_exit_message [OF run rc] obtain msg where
    m: "fst (convert_mp4_to_mp3 env_rejects_nbsp (TmpPath ''/tmp/tmp.mp4'') (OutputPath ''b.mp3'')
              empty_world) = Failed msg" and
    s: "\<forall>pre line ws.
           stderr ?cp = concat (pre @ line @ ws)
           \<and> (\<forall>c \<in> set (pre @ line). utf8_char c)
           \<and> set ws \<subseteq> set space_codes
           \<and> line \<noteq> [] \<and> CHR 0x0A \<notin> set (concat line) \<and> last line \<notin> set space_codes
           \<and> (set pre \<subseteq> set space_codes \<and> hd line \<notin> set space_codes
                \<or> pre \<noteq> [] \<and> last pre = [CHR 0x0A] \<and> \<not> set pre \<subseteq> set space_codes)
           \<longrightarrow> msg = concat line"
    by (elim exE conjE) (rule that; assumption)
  from s [rule_format, OF shape] have "msg = concat ?line" .
  moreover have "concat ?line = ''unsupported codec''"
    by (simp add: ascii_def)
  ultimately show ?thesis
    using m by simp
qed

section \<open>The empty queue\<close>

text \<open>
  Claim C8. Run on an empty queue, from any state and with any transcoder, the handler of
  the button returns without an exception: the converted files and the errors are empty,
  there is no download and no bundle, no conversion is started, and the file system it
  leaves is the one the clearing step leaves, with no \<open>*.mp3\<close> file and no
  \<open>todos_mp3.zip\<close> in the output directory, so the bundler has written nothing.
\<close>

theorem empty_batch_clears_only:
  "\<exists>res w'. run_batch e [] w = Inr (res, w')
     \<and> converted_files res = [] \<and> errors res = []
     \<and> downloads res = [] \<and> zip_download res = None
     \<and> calls w' = calls w
     \<and> clear_outputs (files w) = Inr (files w')
     \<and> glob_mp3 (files w') = []
     \<and> \<not> path_exists (OutputPath ''todos_mp3.zip'') (files w')"
proof -
  define fs1 where "fs1 = (files w)\<lparr>output_dir := filter (\<lambda>(k, v). kept k) (output_dir (files w))\<rparr>"
  have run: "run_batch e [] w
     = Inr (\<lparr>converted_files = [], errors = [], downloads = [], zip_download = None\<rparr>,
            w\<lparr>files := fs1\<rparr>)"
    unfolding fs1_def by (rule run_batch_empty)
  have clr: "clear_outputs (files w) = Inr fs1"
    unfolding fs1_def by (rule clear_outputs_eq)
  have mp3: "\<forall>n. endswith n ''.mp3'' \<longrightarrow> lookup (OutputPath n) fs1 = None"
    unfolding fs1_def lookup_cleared by (simp add: kept_def)
  have zip: "lookup (OutputPath zip_name) fs1 = None"
    unfolding fs1_def lookup_cleared by (simp add: kept_def)
  have "glob_mp3 fs1 = []"
    using mp3 by (simp add: glob_mp3_empty_iff)
  moreover have "\<not> path_exists (OutputPath ''todos_mp3.zip'') fs1"
    using zip by (simp add: path_exists_def zip_name_def)
  ultimately show ?thesis
    using run clr by simp
qed

theorem empty_batch_clears_only_witness:
  "\<exists>res w'. run_batch env_ok [] stale_world = Inr (res, w')
     \<and> converted_files res = [] \<and> errors res = []
     \<and> downloads res = [] \<and> zip_download res = None
     \<and> calls w' = []
     \<and> output_dir (files w') = [(''notes.txt'', Data ''n'')]"
proof -
  have clr: "clear_outputs (files stale_world)
          = Inr \<lparr>output_dir = [(''notes.txt'', Data ''n'')], tmp_dir = []\<rparr>"
    by code_simp
  have log: "calls stale_world = []"
    by (simp add: stale_world_def)
  from empty_batch_clears_only [of env_ok stale_world] obtain res w' where
    run: "run_batch env_ok [] stale_world = Inr (res, w')"
    and res: "converted_files res = []" "errors res = []" "downloads res = []"
      "zip_download res = None"
    and same: "calls w' = calls stale_world"
    and fs: "clear_outputs (files stale_world) = Inr (files w')"
    by blast
  have "files w' = \<lparr>output_dir = [(''notes.txt'', Data ''n'')], tmp_dir = []\<rparr>"
    using clr fs by simp
  then have "output_dir (files w') = [(''notes.txt'', Data ''n'')]"
    by simp
  with run res same log show ?thesis
    by simp
qed

section \<open>The temporary copy\<close>

text \<open>
  Claim C9. Whatever the transcoder does (it may complete with any exit code, write or not
  write its output, time out or fail to start), one turn of the conversion loop ends without
  an exception and the temporary file it created for the upload no longer exists.
\<close>

theorem temp_file_removed:
  "\<exists>w' cs' es'. convert_item e u (w, cs, es) = Inr (w', cs', es')
     \<and> \<not> path_exists (TmpPath (mkstemp e (length (calls w)))) (files w')"
proof -
  obtain r fs' where "launch e u w = (r, fs')"
    by (cases "launch e u w")
  from convert_item_eq [OF this, of cs es] obtain w' cs' es' where
    step: "convert_item e u (w, cs, es) = Inr (w', cs', es')" and
    w': "files w' = remove_file (tmp_path_of e w) fs'"
    by fastforce
  have "lookup (tmp_path_of e w) (files w') = None"
    unfolding w' lookup_remove_file by simp
  then have "\<not> path_exists (TmpPath (mkstemp e (length (calls w)))) (files w')"
    by (simp add: path_exists_def tmp_path_of_def)
  with step show ?thesis by blast
qed

section \<open>The clearing step: what it leaves alone\<close>

text \<open>
  Claim C10. The clearing step never raises. It leaves the directory of temporary files as
  it is, and in the output directory every file whose name neither ends in \<open>.mp3\<close> nor
  is \<open>todos_mp3.zip\<close> is kept with its content: the output directory afterwards is the
  one before without the entries of those names, in the same order.
\<close>

theorem clearing_keeps_other_files:
  "\<exists>fs'. clear_outputs fs = Inr fs'
     \<and> tmp_dir fs' = tmp_dir fs
     \<and> (\<forall>n. \<not> endswith n ''.mp3'' \<and> n \<noteq> ''todos_mp3.zip'' \<longrightarrow>
            lookup (OutputPath n) fs' = lookup (OutputPath n) fs)
     \<and> output_dir fs'
         = filter (\<lambda>(n, f). \<not> endswith n ''.mp3'' \<and> n \<noteq> ''todos_mp3.zip'') (output_dir fs)"
proof -
  define fs1 where "fs1 = fs\<lparr>output_dir := filter (\<lambda>(k, v). kept k) (output_dir fs)\<rparr>"
  have "clear_outputs fs = Inr fs1"
    unfolding fs1_def by (rule clear_outputs_eq)
  moreover have "tmp_dir fs1 = tmp_dir fs"
    by (simp add: fs1_def)
  moreover have "\<forall>n. \<not> endswith n ''.mp3'' \<and> n \<noteq> ''todos_mp3.zip'' \<longrightarrow>
            lookup (OutputPath n) fs1 = lookup (OutputPath n) fs"
    unfolding fs1_def lookup_cleared by (simp add: kept_def zip_name_def)
  moreover have "output_dir fs1
         = filter (\<lambda>(n, f). \<not> endswith n ''.mp3'' \<and> n \<noteq> ''todos_mp3.zip'') (output_dir fs)"
    by (simp add: fs1_def kept_def zip_name_def)
  ultimately show ?thesis by blast
qed

theorem clearing_keeps_other_files_witness:
  "\<exists>fs'. clear_outputs (files stale_world) = Inr fs'
     \<and> lookup (OutputPath ''notes.txt'') fs' = Some (Data ''n'')
     \<and> output_dir fs' = [(''notes.txt'', Data ''n'')]"
proof -
  have a: "\<not> endswith ''notes.txt'' ''.mp3'' \<and> ''notes.txt'' \<noteq> ''todos_mp3.zip''"
    by (simp add: endswith_def)
  have b: "lookup (OutputPath ''notes.txt'') (files stale_world) = Some (Data ''n'')"
    by (simp add: lookup_def stale_world_def)
  have c: "filter (\<lambda>(n, f). \<not> endswith n ''.mp3'' \<and> n \<noteq> ''todos_mp3.zip'')
             (output_dir (files stale_world)) = [(''notes.txt'', Data ''n'')]"
    by (simp add: stale_world_def endswith_def)
  from clearing_keeps_other_files [of "files stale_world"] a b c show ?thesis
    by auto
qed

end
